theory Spec2Isabelle
  imports Main "HOL-Library.AList"
begin

section \<open>Overview\<close>

text \<open>
  A model of \<^verbatim>\<open>src/index.js\<close> of the CSS minimizer plugin for webpack: the static functions
  \<^verbatim>\<open>isSourceMap\<close>, \<^verbatim>\<open>buildError\<close>, \<^verbatim>\<open>buildWarning\<close>, \<^verbatim>\<open>getAvailableNumberOfCores\<close>,
  \<^verbatim>\<open>getAsset\<close> and \<^verbatim>\<open>updateAsset\<close>, the method \<^verbatim>\<open>optimize\<close>, and the assignment of
  \<^verbatim>\<open>apply\<close> to \<^verbatim>\<open>this.options.sourceMap\<close>.

  \<^item> The pure functions are HOL functions; \<^verbatim>\<open>null\<close> and \<^verbatim>\<open>undefined\<close> are \<open>None\<close> or
    JavaScript values.
  \<^item> What the plugin calls and does not define (the operating system, webpack, the
    libraries, the cache engine, the worker, the minifier) is a parameter. A call of the
    minifier and a call of the library \<^verbatim>\<open>source-map\<close> (\<^verbatim>\<open>new SourceMapConsumer\<close>,
    \<^verbatim>\<open>originalPositionFor\<close>) return or throw; the other calls (of webpack, of the sources,
    of the cache, of \<^verbatim>\<open>crypto\<close>, of the functions given in the options) are taken to return.
  \<^item> A task in which a call throws outside the \<^verbatim>\<open>try\<close> block, or inside its handler, is
    rejected, and so is \<^verbatim>\<open>optimize\<close>.
  \<^item> \<^verbatim>\<open>optimize\<close> is asynchronous. Its tasks are interleaved at their \<^verbatim>\<open>await\<close>s; a run is
    determined by a schedule, and the properties hold for every schedule.
\<close>


section \<open>JavaScript values\<close>

text \<open>
  The plugin inspects a few untyped values: the raw source map returned by
  \<^verbatim>\<open>sourceAndMap()\<close>, the \<^verbatim>\<open>sourceMap\<close> option, the options object of a
  \<^verbatim>\<open>SourceMapDevToolPlugin\<close>. They are kept as JavaScript values, with the language's
  truthiness, \<^verbatim>\<open>&&\<close> and \<^verbatim>\<open>||\<close>. An object is an association list from property
  names to values; reading a property that is not there gives \<^verbatim>\<open>undefined\<close>.

  A string is a list of code units below 256.
\<close>

datatype jsval =
    JUndefined
  | JNull
  | JBool bool
  | JNum int
  | JStr string
  | JArr "jsval list"
  | JObj "(string \<times> jsval) list"

fun truthy :: "jsval \<Rightarrow> bool" where
  "truthy JUndefined = False"
| "truthy JNull = False"
| "truthy (JBool b) = b"
| "truthy (JNum n) = (n \<noteq> 0)"
| "truthy (JStr s) = (s \<noteq> [])"
| "truthy (JArr _) = True"
| "truthy (JObj _) = True"

definition js_and :: "jsval \<Rightarrow> jsval \<Rightarrow> jsval" where
  "js_and a b = (if truthy a then b else a)"

definition js_or :: "jsval \<Rightarrow> jsval \<Rightarrow> jsval" where
  "js_or a b = (if truthy a then a else b)"

text \<open>
  \<^verbatim>\<open>v.key\<close> for the property names the plugin reads (\<^verbatim>\<open>version\<close>, \<^verbatim>\<open>sources\<close>,
  \<^verbatim>\<open>mappings\<close>, \<^verbatim>\<open>columns\<close>): only an object can own one of these.
\<close>

fun get_prop :: "jsval \<Rightarrow> string \<Rightarrow> jsval" where
  "get_prop (JObj kvs) k = (case map_of kvs k of Some v \<Rightarrow> v | None \<Rightarrow> JUndefined)"
| "get_prop _ k = JUndefined"

fun isArray :: "jsval \<Rightarrow> bool" where
  "isArray (JArr _) = True"
| "isArray _ = False"

fun isString :: "jsval \<Rightarrow> bool" where
  "isString (JStr _) = True"
| "isString _ = False"

text \<open>
  \<^verbatim>\<open>
  static isSourceMap(input) {
    return Boolean(
      input && input.version && input.sources &&
        Array.isArray(input.sources) && typeof input.mappings === 'string');
  }
  \<close>
\<close>

definition isSourceMap :: "jsval \<Rightarrow> bool" where
  "isSourceMap input \<longleftrightarrow>
     truthy input \<and> truthy (get_prop input ''version'') \<and> truthy (get_prop input ''sources'') \<and>
     isArray (get_prop input ''sources'') \<and> isString (get_prop input ''mappings'')"


section \<open>Strings\<close>

text \<open>\<^verbatim>\<open>s.includes(sub)\<close>: \<^verbatim>\<open>sub\<close> occurs in \<^verbatim>\<open>s\<close> as a contiguous run.\<close>

fun starts_with :: "string \<Rightarrow> string \<Rightarrow> bool" where
  "starts_with s [] = True"
| "starts_with [] (c # cs) = False"
| "starts_with (x # xs) (c # cs) = (x = c \<and> starts_with xs cs)"

fun str_includes :: "string \<Rightarrow> string \<Rightarrow> bool" where
  "str_includes [] sub = (sub = [])"
| "str_includes (x # xs) sub = (starts_with (x # xs) sub \<or> str_includes xs sub)"

text \<open>\<^verbatim>\<open>s.split('\n')\<close>, \<^verbatim>\<open>lines.join('\n')\<close>.\<close>

definition newline :: char where
  "newline = CHR 0x0A"

fun split_lines :: "string \<Rightarrow> string list" where
  "split_lines [] = [[]]"
| "split_lines (c # cs) =
     (if c = newline then [] # split_lines cs
      else (case split_lines cs of
              [] \<Rightarrow> [[c]]
            | l # ls \<Rightarrow> (c # l) # ls))"

fun join_lines :: "string list \<Rightarrow> string" where
  "join_lines [] = []"
| "join_lines [l] = l"
| "join_lines (l # l' # ls) = l @ [newline] @ join_lines (l' # ls)"

text \<open>A non-negative integer in a template literal: its decimal digits.\<close>

definition digit_char :: "nat \<Rightarrow> char" where
  "digit_char d = char_of (48 + d)"

fun show_nat :: "nat \<Rightarrow> string" where
  "show_nat n = (if n < 10 then [digit_char n] else show_nat (n div 10) @ [digit_char (n mod 10)])"

declare show_nat.simps [simp del]

text \<open>A number or \<^verbatim>\<open>null\<close> / \<^verbatim>\<open>undefined\<close> in a template literal.\<close>

definition show_num_or :: "string \<Rightarrow> nat option \<Rightarrow> string" where
  "show_num_or dflt v = (case v of None \<Rightarrow> dflt | Some n \<Rightarrow> show_nat n)"

definition show_str_or :: "string \<Rightarrow> string option \<Rightarrow> string" where
  "show_str_or dflt v = (case v of None \<Rightarrow> dflt | Some s \<Rightarrow> s)"


section \<open>The warning pattern\<close>

text \<open>
  \<^verbatim>\<open>const warningRegex = /\s.+:+([0-9]+):+([0-9]+)/;\<close>

  The pattern is a sequence of one white-space character and five greedy repetitions.
  A backtracking matcher tries, for every repetition, the longest run first and gives
  characters back one at a time; the first combination that lets the rest of the pattern
  succeed is the match. \<open>greedy_plus\<close> lists the ways one repetition can match, in that
  order of preference, and \<open>match_here\<close> chains them, so that the head of its result is
  the match a backtracking matcher reports at this position. \<open>regex_exec\<close> tries the
  start positions from left to right.
\<close>

definition is_space :: "char \<Rightarrow> bool" where
  "is_space c \<longleftrightarrow> c \<in> set [CHR 0x09, CHR 0x0A, CHR 0x0B, CHR 0x0C, CHR 0x0D, CHR 0x20, CHR 0xA0]"

definition is_dot :: "char \<Rightarrow> bool" where
  "is_dot c \<longleftrightarrow> c \<noteq> CHR 0x0A \<and> c \<noteq> CHR 0x0D"

definition is_colon :: "char \<Rightarrow> bool" where
  "is_colon c \<longleftrightarrow> c = CHR '':''"

definition is_digit :: "char \<Rightarrow> bool" where
  "is_digit c \<longleftrightarrow> c \<in> set ''0123456789''"

definition greedy_plus :: "(char \<Rightarrow> bool) \<Rightarrow> string \<Rightarrow> (string \<times> string) list" where
  "greedy_plus P s =
     map (\<lambda>k. (take k s, drop k s)) (rev [1 ..< Suc (length (takeWhile P s))])"

text \<open>The result of a match: the two captured groups and the text that follows the match.\<close>

definition match_here :: "string \<Rightarrow> (string \<times> string \<times> string) list" where
  "match_here s =
     (case s of
        [] \<Rightarrow> []
      | c # r0 \<Rightarrow>
          if is_space c then
            List.bind (greedy_plus is_dot r0) (\<lambda>(_, r1).
            List.bind (greedy_plus is_colon r1) (\<lambda>(_, r2).
            List.bind (greedy_plus is_digit r2) (\<lambda>(g1, r3).
            List.bind (greedy_plus is_colon r3) (\<lambda>(_, r4).
            List.bind (greedy_plus is_digit r4) (\<lambda>(g2, r5). [(g1, g2, r5)])))))
          else [])"

record regex_match =
  m_before :: string
  m_group1 :: string
  m_group2 :: string
  m_after :: string

fun regex_exec :: "string \<Rightarrow> regex_match option" where
  "regex_exec [] = None"
| "regex_exec (c # cs) =
     (case match_here (c # cs) of
        (g1, g2, r) # _ \<Rightarrow> Some \<lparr>m_before = [], m_group1 = g1, m_group2 = g2, m_after = r\<rparr>
      | [] \<Rightarrow> map_option (\<lambda>m. m\<lparr>m_before := c # m_before m\<rparr>) (regex_exec cs))"

text \<open>\<^verbatim>\<open>s.replace(warningRegex, '')\<close>: the pattern has no \<^verbatim>\<open>g\<close> flag, the first match goes.\<close>

definition regex_strip :: "string \<Rightarrow> string" where
  "regex_strip s = (case regex_exec s of None \<Rightarrow> s | Some m \<Rightarrow> m_before m @ m_after m)"

text \<open>
  \<^verbatim>\<open>+match[1]\<close>: the number a run of decimal digits denotes. (A JavaScript number is a
  double; the value here is exact, which agrees with it up to \<open>2 ^ 53\<close>.)
\<close>

definition digits_value :: "string \<Rightarrow> nat" where
  "digits_value ds = fold (\<lambda>c n. 10 * n + (of_char c - 48)) ds 0"


section \<open>Formatting errors and warnings\<close>

text \<open>
  A \<^verbatim>\<open>SourceMapConsumer\<close> is used through \<^verbatim>\<open>originalPositionFor({line, column})\<close> only,
  which returns an object whose \<^verbatim>\<open>source\<close>, \<^verbatim>\<open>line\<close> and \<^verbatim>\<open>column\<close> are \<^verbatim>\<open>null\<close> when
  the position is not mapped. The consumer is that function; \<^verbatim>\<open>column\<close> may be
  \<^verbatim>\<open>undefined\<close> when it comes from a thrown error. A \<^verbatim>\<open>RequestShortener\<close> is used through
  \<^verbatim>\<open>shorten\<close> only. Both are arguments that may be \<^verbatim>\<open>null\<close>.
\<close>

record original =
  o_source :: "string option"
  o_line :: "nat option"
  o_column :: "nat option"

type_synonym consumer = "nat \<Rightarrow> nat option \<Rightarrow> original"

type_synonym shortener = "string \<Rightarrow> string"

text \<open>The value a minifier call throws.\<close>

record js_error =
  e_message :: "string option"
  e_line :: "nat option"
  e_column :: "nat option"
  e_stack :: "string option"

definition truthy_num :: "nat option \<Rightarrow> bool" where
  "truthy_num v = (case v of None \<Rightarrow> False | Some n \<Rightarrow> n \<noteq> 0)"

definition truthy_str :: "string option \<Rightarrow> bool" where
  "truthy_str v = (case v of None \<Rightarrow> False | Some s \<Rightarrow> s \<noteq> [])"

text \<open>
  \<^verbatim>\<open>error.stack ? `\n${error.stack.split('\n').slice(1).join('\n')}` : ''\<close>
\<close>

definition stack_suffix :: "js_error \<Rightarrow> string" where
  "stack_suffix error =
     (if truthy_str (e_stack error)
      then [newline] @ join_lines (drop 1 (split_lines (the (e_stack error))))
      else [])"

text \<open>
  \<^verbatim>\<open>static buildError(error, file, sourceMap, requestShortener)\<close>; the result is the
  message of the \<^verbatim>\<open>Error\<close> it builds.
\<close>

definition buildError ::
    "js_error \<Rightarrow> string \<Rightarrow> consumer option \<Rightarrow> shortener option \<Rightarrow> string" where
  "buildError error file sourceMap requestShortener =
     (if truthy_num (e_line error) then
        (let original = map_option (\<lambda>sm. sm (the (e_line error)) (e_column error)) sourceMap in
         (case (original, requestShortener) of
            (Some orig, Some shorten) \<Rightarrow>
              if truthy_str (o_source orig) then
                file @ '' from Css Minimizer Webpack Plugin'' @ [newline] @
                show_str_or ''undefined'' (e_message error) @
                '' ['' @ shorten (the (o_source orig)) @ '':'' @
                show_num_or ''null'' (o_line orig) @ '','' @
                show_num_or ''null'' (o_column orig) @ '']['' @ file @ '':'' @
                show_num_or ''undefined'' (e_line error) @ '','' @
                show_num_or ''undefined'' (e_column error) @ '']'' @ stack_suffix error
              else
                file @ '' from Css Minimizer '' @ [newline] @
                show_str_or ''undefined'' (e_message error) @
                '' ['' @ file @ '':'' @ show_num_or ''undefined'' (e_line error) @ '','' @
                show_num_or ''undefined'' (e_column error) @ '']'' @ stack_suffix error
          | _ \<Rightarrow>
              file @ '' from Css Minimizer '' @ [newline] @
              show_str_or ''undefined'' (e_message error) @
              '' ['' @ file @ '':'' @ show_num_or ''undefined'' (e_line error) @ '','' @
              show_num_or ''undefined'' (e_column error) @ '']'' @ stack_suffix error))
      else if truthy_str (e_stack error) then
        file @ '' from Css Minimizer'' @ [newline] @ the (e_stack error)
      else
        file @ '' from Css Minimizer'' @ [newline] @ show_str_or ''undefined'' (e_message error))"

text \<open>
  \<^verbatim>\<open>
  static buildWarning(warning, file, sourceMap, requestShortener, warningsFilter) {
    let warningMessage = warning;
    let locationMessage = '';
    let source;
    if (sourceMap) {
      const match = warningRegex.exec(warning);
      if (match) {
        const line = +match[1];
        const column = +match[2];
        const original = sourceMap.originalPositionFor({ line, column });
        if (original && original.source && original.source !== file && requestShortener) {
          ({ source } = original);
          warningMessage = `${warningMessage.replace(warningRegex, '')}`;
          locationMessage = `${requestShortener.shorten(original.source)}:${
            original.line}:${original.column}`;
        }
      }
    }
    if (warningsFilter && !warningsFilter(warning, file, source)) {
      return null;
    }
    return `Css Minimizer Plugin: ${warningMessage} ${locationMessage}`;
  }
  \<close>

  \<open>resolve_warning\<close> is the first \<^verbatim>\<open>if\<close>: the values of \<^verbatim>\<open>warningMessage\<close>,
  \<^verbatim>\<open>locationMessage\<close> and \<^verbatim>\<open>source\<close> when it is left.
\<close>

type_synonym warnings_filter = "string \<Rightarrow> string \<Rightarrow> string option \<Rightarrow> bool"

definition resolve_warning ::
    "string \<Rightarrow> string \<Rightarrow> consumer option \<Rightarrow> shortener option \<Rightarrow> string \<times> string \<times> string option" where
  "resolve_warning warning file sourceMap requestShortener =
     (case sourceMap of
        None \<Rightarrow> (warning, [], None)
      | Some sm \<Rightarrow>
          (case regex_exec warning of
             None \<Rightarrow> (warning, [], None)
           | Some m \<Rightarrow>
               (let line = digits_value (m_group1 m);
                    column = digits_value (m_group2 m);
                    orig = sm line (Some column)
                in case requestShortener of
                     Some shorten \<Rightarrow>
                       if truthy_str (o_source orig) \<and> o_source orig \<noteq> Some file then
                         (regex_strip warning,
                          shorten (the (o_source orig)) @ '':'' @
                          show_num_or ''null'' (o_line orig) @ '':'' @
                          show_num_or ''null'' (o_column orig),
                          o_source orig)
                       else (warning, [], None)
                   | None \<Rightarrow> (warning, [], None))))"

definition buildWarning ::
    "string \<Rightarrow> string \<Rightarrow> consumer option \<Rightarrow> shortener option \<Rightarrow> warnings_filter option
       \<Rightarrow> string option" where
  "buildWarning warning file sourceMap requestShortener warningsFilter =
     (case resolve_warning warning file sourceMap requestShortener of
        (warningMessage, locationMessage, source) \<Rightarrow>
          (case warningsFilter of
             Some f \<Rightarrow>
               if \<not> f warning file source then None
               else Some (''Css Minimizer Plugin: '' @ warningMessage @ '' '' @ locationMessage)
           | None \<Rightarrow>
               Some (''Css Minimizer Plugin: '' @ warningMessage @ '' '' @ locationMessage)))"

text \<open>
  The calls of the library \<^verbatim>\<open>source-map\<close> can throw: \<^verbatim>\<open>originalPositionFor\<close> refuses a
  line that is not positive and mappings that it cannot decode. A consumer of the library
  is the function that returns a position or throws. \<^verbatim>\<open>buildError\<close> and \<^verbatim>\<open>buildWarning\<close>
  call \<^verbatim>\<open>originalPositionFor\<close> at most once, \<^verbatim>\<open>buildError\<close> at the position of the error
  when \<^verbatim>\<open>error.line\<close> is truthy and \<^verbatim>\<open>buildWarning\<close> at the position that the pattern
  matches. When that call throws, so do they; when it returns they go on with what it
  returned, as the two functions above say (\<open>returned lc\<close> is the consumer \<open>lc\<close> seen
  by a caller whose call returned).
\<close>

type_synonym lib_consumer = "nat \<Rightarrow> nat option \<Rightarrow> js_error + original"

definition returned :: "lib_consumer \<Rightarrow> consumer" where
  "returned lc line column =
     (case lc line column of
        Inr orig \<Rightarrow> orig
      | Inl _ \<Rightarrow> \<lparr>o_source = None, o_line = None, o_column = None\<rparr>)"

definition error_position :: "js_error \<Rightarrow> (nat \<times> nat option) option" where
  "error_position error =
     (if truthy_num (e_line error) then Some (the (e_line error), e_column error) else None)"

definition warning_position :: "string \<Rightarrow> (nat \<times> nat option) option" where
  "warning_position warning =
     (case regex_exec warning of
        None \<Rightarrow> None
      | Some m \<Rightarrow> Some (digits_value (m_group1 m), Some (digits_value (m_group2 m))))"

definition lookup_throws ::
    "lib_consumer option \<Rightarrow> (nat \<times> nat option) option \<Rightarrow> js_error option" where
  "lookup_throws sourceMap position =
     (case sourceMap of
        None \<Rightarrow> None
      | Some lc \<Rightarrow>
          (case position of
             None \<Rightarrow> None
           | Some (line, column) \<Rightarrow>
               (case lc line column of Inl e \<Rightarrow> Some e | Inr _ \<Rightarrow> None)))"

definition call_buildError ::
    "js_error \<Rightarrow> string \<Rightarrow> lib_consumer option \<Rightarrow> shortener option \<Rightarrow> js_error + string" where
  "call_buildError error file sourceMap requestShortener =
     (case lookup_throws sourceMap (error_position error) of
        Some e \<Rightarrow> Inl e
      | None \<Rightarrow> Inr (buildError error file (map_option returned sourceMap) requestShortener))"

definition call_buildWarning ::
    "string \<Rightarrow> string \<Rightarrow> lib_consumer option \<Rightarrow> shortener option \<Rightarrow> warnings_filter option
       \<Rightarrow> js_error + string option" where
  "call_buildWarning warning file sourceMap requestShortener warningsFilter =
     (case lookup_throws sourceMap (warning_position warning) of
        Some e \<Rightarrow> Inl e
      | None \<Rightarrow>
          Inr (buildWarning warning file (map_option returned sourceMap) requestShortener
                 warningsFilter))"


section \<open>The number of workers\<close>

text \<open>
  \<^verbatim>\<open>
  static getAvailableNumberOfCores(parallel) {
    // In some cases cpus() returns undefined
    const cpus = os.cpus() || { length: 1 };
    return parallel === true
      ? cpus.length - 1
      : Math.min(Number(parallel) || 0, cpus.length - 1);
  }
  \<close>

  \<^verbatim>\<open>os.cpus()\<close> is an argument: \<open>None\<close> when it is \<^verbatim>\<open>undefined\<close>, otherwise the length of
  the array, which is empty when the system gives no information about its processors.
  The option \<^verbatim>\<open>parallel\<close> is a boolean or an integer.
\<close>

datatype parallel = PBool bool | PNum int

definition cpus_length :: "nat option \<Rightarrow> int" where
  "cpus_length cpus = (case cpus of None \<Rightarrow> 1 | Some n \<Rightarrow> int n)"

fun number_or_0 :: "parallel \<Rightarrow> int" where
  "number_or_0 (PBool b) = (if b then 1 else 0)"
| "number_or_0 (PNum n) = n"

definition getAvailableNumberOfCores :: "nat option \<Rightarrow> parallel \<Rightarrow> int" where
  "getAvailableNumberOfCores cpus parallel =
     (if parallel = PBool True then cpus_length cpus - 1
      else min (number_or_0 parallel) (cpus_length cpus - 1))"

text \<open>
  The part of \<^verbatim>\<open>optimize\<close> that sets up the scheduler:
  \<^verbatim>\<open>
    let concurrency = Infinity;
    let worker;
    if (availableNumberOfCores > 0) {
      const numWorkers = Math.min(assetNames.length, availableNumberOfCores);
      concurrency = numWorkers;
      worker = new Worker(require.resolve('./minify'), { numWorkers });
      ...
    }
    const limit = pLimit(concurrency);
  \<close>
\<close>

datatype concurrency = Infinity | Limit nat

record scheduler =
  concurrency :: concurrency
  worker :: "nat option"

definition make_scheduler :: "nat \<Rightarrow> int \<Rightarrow> scheduler" where
  "make_scheduler n_assets availableNumberOfCores =
     (if availableNumberOfCores > 0 then
        (let numWorkers = nat (min (int n_assets) availableNumberOfCores)
         in \<lparr>concurrency = Limit numWorkers, worker = Some numWorkers\<rparr>)
      else \<lparr>concurrency = Infinity, worker = None\<rparr>)"


section \<open>The effective source map option\<close>

text \<open>
  \<^verbatim>\<open>
    const { devtool, plugins } = compiler.options;
    this.options.sourceMap =
      typeof this.options.sourceMap === 'undefined'
        ? (devtool && !devtool.includes('eval') && !devtool.includes('cheap') &&
            (devtool.includes('source-map') || devtool.includes('sourcemap'))) ||
          (plugins && plugins.some((plugin) =>
                plugin instanceof SourceMapDevToolPlugin &&
                plugin.options && plugin.options.columns))
        : this.options.sourceMap;
  \<close>

  \<^verbatim>\<open>devtool\<close> is a string, \<^verbatim>\<open>false\<close> or \<^verbatim>\<open>undefined\<close>; \<^verbatim>\<open>plugins\<close> is an array or
  \<^verbatim>\<open>undefined\<close>. Of a plugin only its class and its \<^verbatim>\<open>options\<close> are read.
\<close>

datatype devtool = DevtoolUndefined | DevtoolFalse | DevtoolStr string

datatype plugin = SourceMapDevToolPlugin jsval | OtherPlugin

definition devtool_part :: "devtool \<Rightarrow> jsval" where
  "devtool_part devtool =
     (case devtool of
        DevtoolUndefined \<Rightarrow> JUndefined
      | DevtoolFalse \<Rightarrow> JBool False
      | DevtoolStr s \<Rightarrow>
          js_and (JStr s)
            (JBool (\<not> str_includes s ''eval'' \<and> \<not> str_includes s ''cheap'' \<and>
                    (str_includes s ''source-map'' \<or> str_includes s ''sourcemap''))))"

fun plugin_with_columns :: "plugin \<Rightarrow> bool" where
  "plugin_with_columns (SourceMapDevToolPlugin opts) = truthy (js_and opts (get_prop opts ''columns''))"
| "plugin_with_columns OtherPlugin = False"

definition plugins_part :: "plugin list option \<Rightarrow> jsval" where
  "plugins_part plugins =
     (case plugins of
        None \<Rightarrow> JUndefined
      | Some ps \<Rightarrow> JBool (list_ex plugin_with_columns ps))"

definition apply_sourceMap :: "jsval \<Rightarrow> devtool \<Rightarrow> plugin list option \<Rightarrow> jsval" where
  "apply_sourceMap sourceMap devtool plugins =
     (if sourceMap = JUndefined then js_or (devtool_part devtool) (plugins_part plugins)
      else sourceMap)"


section \<open>Assets, options and the collaborators of \<^verbatim>\<open>optimize\<close>\<close>

text \<open>
  A source is an object of the \<^verbatim>\<open>webpack-sources\<close> library. The plugin builds two kinds
  of them and receives the others from the host; it reads a source through the methods
  \<^verbatim>\<open>source()\<close> and \<^verbatim>\<open>sourceAndMap()\<close> only, which belong to the library and are
  parameters of the model (see \<open>env\<close> below). \<^verbatim>\<open>source()\<close> returns a string or a
  \<^verbatim>\<open>Buffer\<close>. A source of the host is known by a number; the two others are
  \<^verbatim>\<open>new RawSource(code)\<close> and
  \<^verbatim>\<open>new SourceMapSource(code, name, map, input, inputSourceMap, true)\<close>.
\<close>

datatype content = Str string | Buf string

datatype source =
    HostSource nat
  | RawSource string
  | SourceMapSource string string jsval string jsval

text \<open>
  The info of an asset is an object; \<^verbatim>\<open>info.minimized\<close> is read for its truthiness and
  \<^verbatim>\<open>{ ...info, minimized: true }\<close> sets it.
\<close>

type_synonym info = "(string \<times> jsval) list"

definition info_minimized :: "info \<Rightarrow> bool" where
  "info_minimized info = truthy (get_prop (JObj info) ''minimized'')"

definition set_minimized :: "info \<Rightarrow> info" where
  "set_minimized info = AList.update ''minimized'' (JBool True) info"

record asset =
  a_source :: source
  a_info :: info

text \<open>
  What is pushed on \<^verbatim>\<open>compilation.warnings\<close> and \<^verbatim>\<open>compilation.errors\<close>: an
  \<^verbatim>\<open>Error\<close> object with its message, or a plain string.
\<close>

datatype diag = ErrorObject string | Message string

text \<open>
  The options of the plugin. \<^verbatim>\<open>test\<close>, \<^verbatim>\<open>include\<close> and \<^verbatim>\<open>exclude\<close> are strings,
  regular expressions or arrays of them, read by webpack's \<^verbatim>\<open>matchObject\<close> only;
  \<^verbatim>\<open>minify\<close> is a reference to a function of the user that the plugin passes on.
  The fields that are functions called by the plugin come last; the default cache keys of
  webpack 4 carry \<^verbatim>\<open>this.options\<close>, for which the model takes the fields before them.
\<close>

datatype matcher = MString string | MRegExp string | MList "matcher list"

datatype fn_ref = FnRef string

record options_data =
  opt_test :: "matcher option"
  opt_include :: "matcher option"
  opt_exclude :: "matcher option"
  opt_sourceMap :: jsval
  opt_cache :: jsval
  opt_parallel :: parallel
  opt_minify :: "fn_ref option"
  opt_minimizerOptions :: jsval

record cache_keys =
  ck_plugin_version :: string
  ck_cssMinimizer :: string
  ck_options :: options_data
  ck_name :: string
  ck_contentHash :: string
  ck_more :: "(string \<times> jsval) list"

record options = options_data +
  opt_warningsFilter :: warnings_filter
  opt_cacheKeys :: "cache_keys \<Rightarrow> string \<Rightarrow> cache_keys"

text \<open>
  \<^verbatim>\<open>const cacheData = { name, inputSource };\<close> with, for webpack 4 and an enabled cache,
  \<^verbatim>\<open>input\<close>, \<^verbatim>\<open>inputSourceMap\<close> and \<^verbatim>\<open>cacheKeys\<close>.
\<close>

record cache_data =
  cd_name :: string
  cd_inputSource :: source
  cd_input :: "string option"
  cd_inputSourceMap :: "jsval option"
  cd_cacheKeys :: "cache_keys option"

text \<open>The argument and the result of a minifier call; the output of a task.\<close>

record minimizer_options =
  mo_name :: string
  mo_input :: string
  mo_inputSourceMap :: jsval
  mo_map :: jsval
  mo_minimizerOptions :: jsval
  mo_minify :: "fn_ref option"

record min_result =
  r_code :: string
  r_map :: jsval
  r_warnings :: "string list option"

record min_output =
  out_code :: string
  out_map :: jsval
  out_warnings :: "string list option"
  out_source :: source

text \<open>
  Everything \<^verbatim>\<open>optimize\<close> calls that is not in \<^verbatim>\<open>index.js\<close>: the operating system,
  webpack, \<^verbatim>\<open>webpack-sources\<close>, \<^verbatim>\<open>source-map\<close>, \<^verbatim>\<open>crypto\<close>, \<^verbatim>\<open>serialize-javascript\<close>,
  the package versions, the cache engine that \<^verbatim>\<open>optimize\<close> receives as an argument (with
  its state of type \<open>'c\<close>; \<^verbatim>\<open>get\<close> reads it, \<^verbatim>\<open>store\<close> changes it), the worker and the
  function \<^verbatim>\<open>minify\<close> of \<^verbatim>\<open>./minify\<close>. A minifier call returns a result or throws, and
  so do the calls of \<^verbatim>\<open>source-map\<close>; the other calls are taken to return.

  \<^item> \<open>os_cpus\<close>: \<^verbatim>\<open>os.cpus()\<close>, as for \<open>getAvailableNumberOfCores\<close>.
  \<^item> \<open>matchObject\<close>: \<^verbatim>\<open>ModuleFilenameHelpers.matchObject\<close>.
  \<^item> \<open>source_fn\<close>, \<open>sourceAndMap_fn\<close>: the methods of a source; the second is \<open>None\<close>
    for a source without \<^verbatim>\<open>sourceAndMap\<close> (webpack 4). \<open>buffer_toString\<close>:
    \<^verbatim>\<open>toString()\<close> of a \<^verbatim>\<open>Buffer\<close>.
  \<^item> \<open>isWebpack4\<close>: \<^verbatim>\<open>webpackVersion[0] === '4'\<close>. \<open>plugin_version\<close>,
    \<open>cssMinimizer_version\<close>: the versions in the two \<^verbatim>\<open>package.json\<close>. \<open>md4_hex\<close>: the
    digest of \<^verbatim>\<open>crypto\<close>.
  \<^item> \<open>cache_get\<close>, \<open>cache_store\<close>: \<^verbatim>\<open>get\<close> and \<^verbatim>\<open>store\<close> of the object
    \<^verbatim>\<open>new CacheEngine(compilation, { cache: this.options.cache }, weakCache)\<close>; their first
    argument is the option \<^verbatim>\<open>cache\<close>. \<^verbatim>\<open>store\<close> receives
    \<^verbatim>\<open>{ ...output, ...cacheData }\<close>, here the two objects.
  \<^item> \<open>serialize\<close>, \<open>worker_transform\<close>: \<^verbatim>\<open>worker.transform(serialize(minimizerOptions))\<close>.
    \<open>minifyFn\<close>: \<^verbatim>\<open>minifyFn(minimizerOptions)\<close>.
  \<^item> \<open>SourceMapConsumer\<close>: \<^verbatim>\<open>new SourceMapConsumer(inputSourceMap)\<close>, which throws when the
    library refuses the map (an unsupported version, for one) and returns a consumer
    otherwise. \<open>shorten_fn\<close>: \<^verbatim>\<open>new RequestShortener(compiler.context).shorten\<close>.
\<close>

record 'c env =
  os_cpus :: "nat option"
  matchObject :: "options \<Rightarrow> string \<Rightarrow> bool"
  source_fn :: "source \<Rightarrow> content"
  sourceAndMap_fn :: "source \<Rightarrow> (content \<times> jsval) option"
  buffer_toString :: "string \<Rightarrow> string"
  isWebpack4 :: bool
  plugin_version :: string
  cssMinimizer_version :: string
  md4_hex :: "string \<Rightarrow> string"
  cache_get :: "jsval \<Rightarrow> 'c \<Rightarrow> cache_data \<Rightarrow> min_output option"
  cache_store :: "jsval \<Rightarrow> 'c \<Rightarrow> min_output \<Rightarrow> cache_data \<Rightarrow> 'c"
  serialize :: "minimizer_options \<Rightarrow> string"
  worker_transform :: "string \<Rightarrow> js_error + min_result"
  minifyFn :: "minimizer_options \<Rightarrow> js_error + min_result"
  SourceMapConsumer :: "jsval \<Rightarrow> js_error + lib_consumer"
  shorten_fn :: shortener


section \<open>The state of a run\<close>

text \<open>
  The compilation (its assets in the order of their keys, whether it has the methods
  \<^verbatim>\<open>getAsset\<close> and \<^verbatim>\<open>updateAsset\<close>, its warnings and errors), the state of the cache,
  and a log of what the tasks did, in the order in which they did it. The log is not
  a variable of the program: it records the calls and their results, so that a property
  can speak about them.
\<close>

datatype executor = InProcess | InWorker

datatype event =
    CacheHit string min_output
  | CacheMiss string
  | Invoke string executor minimizer_options
  | Threw string js_error
  | Returned string min_result
  | Stored string min_output cache_data
  | PushedWarning string diag
  | PushedError string diag
  | Updated string source info

fun event_name :: "event \<Rightarrow> string" where
  "event_name (CacheHit n _) = n"
| "event_name (CacheMiss n) = n"
| "event_name (Invoke n _ _) = n"
| "event_name (Threw n _) = n"
| "event_name (Returned n _) = n"
| "event_name (Stored n _ _) = n"
| "event_name (PushedWarning n _) = n"
| "event_name (PushedError n _) = n"
| "event_name (Updated n _ _) = n"

record 'c state =
  assets :: "(string \<times> source \<times> info) list"
  asset_api :: bool
  warnings :: "diag list"
  errors :: "diag list"
  cache :: 'c
  log :: "event list"

text \<open>\<^verbatim>\<open>Object.keys\<close>: every key once.\<close>

definition object_keys :: "(string \<times> 'v) list \<Rightarrow> string list" where
  "object_keys obj = remdups (map fst obj)"

text \<open>
  \<^verbatim>\<open>
  static getAsset(compilation, name) {
    if (compilation.getAsset) { return compilation.getAsset(name); }
    if (compilation.assets[name]) {
      return { name, source: compilation.assets[name], info: {} };
    }
  }
  \<close>
  The result is \<open>None\<close> for \<^verbatim>\<open>undefined\<close>. The method of the compilation returns the
  source and the info of an asset of the store, and \<^verbatim>\<open>undefined\<close> for any other name.
\<close>

definition getAsset :: "'c state \<Rightarrow> string \<Rightarrow> asset option" where
  "getAsset st name =
     (case map_of (assets st) name of
        None \<Rightarrow> None
      | Some (src, info) \<Rightarrow>
          if asset_api st then Some \<lparr>a_source = src, a_info = info\<rparr>
          else Some \<lparr>a_source = src, a_info = []\<rparr>)"

text \<open>
  \<^verbatim>\<open>
  static updateAsset(compilation, name, newSource, assetInfo) {
    if (compilation.updateAsset) { compilation.updateAsset(name, newSource, assetInfo); }
    compilation.assets[name] = newSource;
  }
  \<close>
  The method of the compilation replaces the source and merges \<^verbatim>\<open>assetInfo\<close> into the
  info of the asset; it throws (\<open>None\<close>) when there is no such asset. Without the method
  the info of the store is not touched.
\<close>

definition updateAsset :: "'c state \<Rightarrow> string \<Rightarrow> source \<Rightarrow> info \<Rightarrow> 'c state option" where
  "updateAsset st name newSource assetInfo =
     (case map_of (assets st) name of
        None \<Rightarrow>
          if asset_api st then None
          else Some (st\<lparr>assets := AList.update name (newSource, []) (assets st),
                        log := log st @ [Updated name newSource []]\<rparr>)
      | Some (src, info) \<Rightarrow>
          (let info' = (if asset_api st then AList.merge info assetInfo else info)
           in Some (st\<lparr>assets := AList.update name (newSource, info') (assets st),
                         log := log st @ [Updated name newSource info']\<rparr>)))"

definition emit :: "event \<Rightarrow> 'c state \<Rightarrow> 'c state" where
  "emit e st = st\<lparr>log := log st @ [e]\<rparr>"

definition push_warning :: "string \<Rightarrow> diag \<Rightarrow> 'c state \<Rightarrow> 'c state" where
  "push_warning name d st =
     st\<lparr>warnings := warnings st @ [d], log := log st @ [PushedWarning name d]\<rparr>"

definition push_error :: "string \<Rightarrow> diag \<Rightarrow> 'c state \<Rightarrow> 'c state" where
  "push_error name d st =
     st\<lparr>errors := errors st @ [d], log := log st @ [PushedError name d]\<rparr>"


section \<open>The task of one asset\<close>

text \<open>
  \<^verbatim>\<open>optimize\<close> schedules one task for every selected asset: the function given to
  \<^verbatim>\<open>limit\<close> in the loop over \<^verbatim>\<open>assetNames\<close>. A task runs without interruption from one
  \<^verbatim>\<open>await\<close> to the next, so it is a sequence of at most four steps: up to the call of
  \<^verbatim>\<open>cache.get\<close>, from its result to the call of the minifier, from the result of the
  minifier to the call of \<^verbatim>\<open>cache.store\<close>, and the rest. Between two steps of a task,
  steps of other tasks may run. \<open>ctx\<close> holds the local variables a task keeps across
  its steps.
\<close>

record ctx =
  c_name :: string
  c_info :: info
  c_input :: string
  c_inputSourceMap :: jsval
  c_cacheData :: cache_data

datatype task =
    Queued
  | AwaitGet ctx
  | AwaitMinify ctx
  | AwaitStore ctx min_output
  | Done
  | Rejected

definition to_text :: "'c env \<Rightarrow> content \<Rightarrow> string" where
  "to_text env c = (case c of Str s \<Rightarrow> s | Buf b \<Rightarrow> buffer_toString env b)"

text \<open>
  \<^verbatim>\<open>
          let input;
          let inputSourceMap;
          if (this.options.sourceMap && inputSource.sourceAndMap) {
            const { source, map } = inputSource.sourceAndMap();
            input = source;
            if (map) {
              if (CssMinimizerPlugin.isSourceMap(map)) {
                inputSourceMap = map;
              } else {
                inputSourceMap = map;
                compilation.warnings.push(new Error(`${name} contains invalid source map`));
              }
            }
          } else {
            input = inputSource.source();
            inputSourceMap = null;
          }
          if (Buffer.isBuffer(input)) { input = input.toString(); }
  \<close>
  \<open>extract_input\<close> gives \<^verbatim>\<open>input\<close>, \<^verbatim>\<open>inputSourceMap\<close> and whether the warning is pushed.
\<close>

definition extract_input :: "'c env \<Rightarrow> options \<Rightarrow> source \<Rightarrow> string \<times> jsval \<times> bool" where
  "extract_input env opts inputSource =
     (case (if truthy (opt_sourceMap opts) then sourceAndMap_fn env inputSource else None) of
        Some (source, smap) \<Rightarrow>
          if truthy smap then
            if isSourceMap smap then (to_text env source, smap, False)
            else (to_text env source, smap, True)
          else (to_text env source, JUndefined, False)
      | None \<Rightarrow> (to_text env (source_fn env inputSource), JNull, False))"

text \<open>
  \<^verbatim>\<open>
          const cacheData = { name, inputSource };
          if (CssMinimizerPlugin.isWebpack4()) {
            if (this.options.cache) {
              cacheData.input = input;
              cacheData.inputSourceMap = inputSourceMap;
              cacheData.cacheKeys = this.options.cacheKeys(
                { 'css-minimizer-webpack-plugin': require('../package.json').version,
                  cssMinimizer: CssMinimizerPackageJson.version,
                  'css-minimizer-webpack-plugin-options': this.options,
                  name,
                  contentHash: crypto.createHash('md4').update(input).digest('hex') },
                name);
            }
          }
  \<close>
\<close>

definition make_cacheData ::
    "'c env \<Rightarrow> options \<Rightarrow> string \<Rightarrow> source \<Rightarrow> string \<Rightarrow> jsval \<Rightarrow> cache_data" where
  "make_cacheData env opts name inputSource input inputSourceMap =
     (if isWebpack4 env \<and> truthy (opt_cache opts) then
        \<lparr>cd_name = name, cd_inputSource = inputSource, cd_input = Some input,
         cd_inputSourceMap = Some inputSourceMap,
         cd_cacheKeys = Some (opt_cacheKeys opts
           \<lparr>ck_plugin_version = plugin_version env,
            ck_cssMinimizer = cssMinimizer_version env,
            ck_options = options_data.truncate opts,
            ck_name = name,
            ck_contentHash = md4_hex env input,
            ck_more = []\<rparr> name)\<rparr>
      else
        \<lparr>cd_name = name, cd_inputSource = inputSource, cd_input = None,
         cd_inputSourceMap = None, cd_cacheKeys = None\<rparr>)"

definition make_ctx :: "'c env \<Rightarrow> options \<Rightarrow> string \<Rightarrow> asset \<Rightarrow> ctx" where
  "make_ctx env opts name a =
     (case extract_input env opts (a_source a) of
        (input, inputSourceMap, invalid) \<Rightarrow>
          \<lparr>c_name = name, c_info = a_info a, c_input = input,
           c_inputSourceMap = inputSourceMap,
           c_cacheData = make_cacheData env opts name (a_source a) input inputSourceMap\<rparr>)"

definition invalid_map_warning :: "string \<Rightarrow> diag" where
  "invalid_map_warning name = ErrorObject (name @ '' contains invalid source map'')"

text \<open>
  The first step: from \<^verbatim>\<open>getAsset\<close> to the call of \<^verbatim>\<open>cache.get\<close>. The task is rejected
  when \<^verbatim>\<open>getAsset\<close> returns \<^verbatim>\<open>undefined\<close>, whose properties cannot be read.
  \<^verbatim>\<open>
          const { source: inputSource, info } = CssMinimizerPlugin.getAsset(compilation, name);
          // Skip double minimize assets from child compilation
          if (info.minimized) { return; }
  \<close>
\<close>

definition task_start :: "'c env \<Rightarrow> options \<Rightarrow> string \<Rightarrow> 'c state \<Rightarrow> 'c state \<times> task" where
  "task_start env opts name st =
     (case getAsset st name of
        None \<Rightarrow> (st, Rejected)
      | Some a \<Rightarrow>
          if info_minimized (a_info a) then (st, Done)
          else
            ((if snd (snd (extract_input env opts (a_source a)))
              then push_warning name (invalid_map_warning name) st
              else st),
             AwaitGet (make_ctx env opts name a)))"

text \<open>
  \<^verbatim>\<open>
    inputSourceMap && CssMinimizerPlugin.isSourceMap(inputSourceMap)
      ? new SourceMapConsumer(inputSourceMap) : null
  \<close>
  The constructor is called for a map that passes \<^verbatim>\<open>isSourceMap\<close>; it returns a consumer
  or throws.
\<close>

definition task_consumer :: "'c env \<Rightarrow> ctx \<Rightarrow> js_error + lib_consumer option" where
  "task_consumer env c =
     (if truthy (c_inputSourceMap c) \<and> isSourceMap (c_inputSourceMap c)
      then (case SourceMapConsumer env (c_inputSourceMap c) of
              Inl e \<Rightarrow> Inl e
            | Inr lc \<Rightarrow> Inr (Some lc))
      else Inr None)"

text \<open>
  The loop over \<^verbatim>\<open>output.warnings\<close>:
  \<^verbatim>\<open>
            output.warnings.forEach((warning) => {
              const builtWarning = CssMinimizerPlugin.buildWarning(warning, name,
                <consumer or null>, new RequestShortener(compiler.context),
                this.options.warningsFilter);
              if (builtWarning) { compilation.warnings.push(builtWarning); }
            });
  \<close>
  \<open>built_warning\<close> is the call of \<^verbatim>\<open>buildWarning\<close> with its arguments: the constructor of
  the consumer is called for every warning, then \<^verbatim>\<open>buildWarning\<close>; either can throw.
  \<open>built_warnings\<close> gives the warnings that the loop pushes, in their order, and what
  the loop throws, if it does: it stops at the first warning for which a call throws, and
  the warnings before that one have been pushed.
\<close>

definition built_warning :: "'c env \<Rightarrow> options \<Rightarrow> ctx \<Rightarrow> string \<Rightarrow> js_error + string option" where
  "built_warning env opts c warning =
     (case task_consumer env c of
        Inl e \<Rightarrow> Inl e
      | Inr sourceMap \<Rightarrow>
          call_buildWarning warning (c_name c) sourceMap (Some (shorten_fn env))
            (Some (opt_warningsFilter opts)))"

fun built_warnings ::
    "'c env \<Rightarrow> options \<Rightarrow> ctx \<Rightarrow> string list \<Rightarrow> diag list \<times> js_error option" where
  "built_warnings env opts c [] = ([], None)"
| "built_warnings env opts c (warning # ws) =
     (case built_warning env opts c warning of
        Inl e \<Rightarrow> ([], Some e)
      | Inr builtWarning \<Rightarrow>
          (case built_warnings env opts c ws of
             (ds, thrown) \<Rightarrow>
               ((case builtWarning of
                   None \<Rightarrow> []
                 | Some b \<Rightarrow> if b \<noteq> [] then [Message b] else []) @ ds,
                thrown)))"

text \<open>
  The end of a task, with the output of the cache or of the minifier:
  \<^verbatim>\<open>
          if (output.warnings && output.warnings.length > 0) { ... }
          const newInfo = { ...info, minimized: true };
          const { source } = output;
          CssMinimizerPlugin.updateAsset(compilation, name, source, newInfo);
  \<close>
  The loop is not inside a \<^verbatim>\<open>try\<close> block: when it throws, the task is rejected with the
  warnings pushed so far, and \<^verbatim>\<open>updateAsset\<close> is not called.
\<close>

definition warnings_to_push ::
    "'c env \<Rightarrow> options \<Rightarrow> ctx \<Rightarrow> min_output \<Rightarrow> diag list \<times> js_error option" where
  "warnings_to_push env opts c output =
     (case out_warnings output of
        None \<Rightarrow> ([], None)
      | Some ws \<Rightarrow> if length ws > 0 then built_warnings env opts c ws else ([], None))"

definition finish :: "'c env \<Rightarrow> options \<Rightarrow> ctx \<Rightarrow> min_output \<Rightarrow> 'c state \<Rightarrow> 'c state \<times> task" where
  "finish env opts c output st =
     (case warnings_to_push env opts c output of
        (ds, thrown) \<Rightarrow>
          (let st1 = fold (push_warning (c_name c)) ds st
           in case thrown of
                Some e \<Rightarrow> (st1, Rejected)
              | None \<Rightarrow>
                  (case updateAsset st1 (c_name c) (out_source output)
                          (set_minimized (c_info c)) of
                     None \<Rightarrow> (st1, Rejected)
                   | Some st2 \<Rightarrow> (st2, Done))))"

text \<open>
  \<^verbatim>\<open>
              const minimizerOptions = { name, input, inputSourceMap,
                map: this.options.sourceMap,
                minimizerOptions: this.options.minimizerOptions,
                minify: this.options.minify };
              output = await (worker
                ? worker.transform(serialize(minimizerOptions))
                : minifyFn(minimizerOptions));
  \<close>
\<close>

definition minimizerOptions_of :: "options \<Rightarrow> ctx \<Rightarrow> minimizer_options" where
  "minimizerOptions_of opts c =
     \<lparr>mo_name = c_name c, mo_input = c_input c, mo_inputSourceMap = c_inputSourceMap c,
      mo_map = opt_sourceMap opts, mo_minimizerOptions = opt_minimizerOptions opts,
      mo_minify = opt_minify opts\<rparr>"

definition executor_of :: "scheduler \<Rightarrow> executor" where
  "executor_of sched = (case worker sched of Some _ \<Rightarrow> InWorker | None \<Rightarrow> InProcess)"

definition call_minifier ::
    "'c env \<Rightarrow> scheduler \<Rightarrow> minimizer_options \<Rightarrow> js_error + min_result" where
  "call_minifier env sched minimizerOptions =
     (case worker sched of
        Some _ \<Rightarrow> worker_transform env (serialize env minimizerOptions)
      | None \<Rightarrow> minifyFn env minimizerOptions)"

text \<open>
  The second step: the result of \<^verbatim>\<open>cache.get\<close> arrives. With an output the task ends;
  without one the minifier is called.
\<close>

definition after_get ::
    "'c env \<Rightarrow> options \<Rightarrow> scheduler \<Rightarrow> ctx \<Rightarrow> 'c state \<Rightarrow> 'c state \<times> task" where
  "after_get env opts sched c st =
     (case cache_get env (opt_cache opts) (cache st) (c_cacheData c) of
        Some output \<Rightarrow> finish env opts c output (emit (CacheHit (c_name c) output) st)
      | None \<Rightarrow>
          (emit (Invoke (c_name c) (executor_of sched) (minimizerOptions_of opts c))
             (emit (CacheMiss (c_name c)) st),
           AwaitMinify c))"

text \<open>
  \<^verbatim>\<open>
            if (output.map) {
              output.source = new SourceMapSource(output.code, name, output.map, input,
                inputSourceMap, true);
            } else {
              output.source = new RawSource(output.code);
            }
  \<close>
\<close>

definition build_output :: "ctx \<Rightarrow> min_result \<Rightarrow> min_output" where
  "build_output c r =
     \<lparr>out_code = r_code r, out_map = r_map r, out_warnings = r_warnings r,
      out_source =
        (if truthy (r_map r)
         then SourceMapSource (r_code r) (c_name c) (r_map r) (c_input c) (c_inputSourceMap c)
         else RawSource (r_code r))\<rparr>"

text \<open>
  The third step: the minifier call returns or throws.
  \<^verbatim>\<open>
            } catch (error) {
              compilation.errors.push(
                CssMinimizerPlugin.buildError(error, name, <consumer or null>,
                  new RequestShortener(compiler.context)));
              return;
            }
  \<close>
  \<open>built_error\<close> is the argument of \<^verbatim>\<open>push\<close>: the constructor of the consumer is called,
  then \<^verbatim>\<open>buildError\<close>; either can throw, inside the handler, and then nothing is pushed and
  the task is rejected.
\<close>

definition built_error :: "'c env \<Rightarrow> ctx \<Rightarrow> js_error \<Rightarrow> js_error + string" where
  "built_error env c error =
     (case task_consumer env c of
        Inl e \<Rightarrow> Inl e
      | Inr sourceMap \<Rightarrow> call_buildError error (c_name c) sourceMap (Some (shorten_fn env)))"

definition after_minify ::
    "'c env \<Rightarrow> options \<Rightarrow> scheduler \<Rightarrow> ctx \<Rightarrow> 'c state \<Rightarrow> 'c state \<times> task" where
  "after_minify env opts sched c st =
     (case call_minifier env sched (minimizerOptions_of opts c) of
        Inl error \<Rightarrow>
          (case built_error env c error of
             Inl e \<Rightarrow> (emit (Threw (c_name c) error) st, Rejected)
           | Inr message \<Rightarrow>
               (push_error (c_name c) (ErrorObject message) (emit (Threw (c_name c) error) st),
                Done))
      | Inr r \<Rightarrow> (emit (Returned (c_name c) r) st, AwaitStore c (build_output c r)))"

text \<open>
  The fourth step: \<^verbatim>\<open>await cache.store({ ...output, ...cacheData });\<close> is over.
\<close>

definition after_store ::
    "'c env \<Rightarrow> options \<Rightarrow> ctx \<Rightarrow> min_output \<Rightarrow> 'c state \<Rightarrow> 'c state \<times> task" where
  "after_store env opts c output st =
     finish env opts c output
       (emit (Stored (c_name c) output (c_cacheData c))
          (st\<lparr>cache := cache_store env (opt_cache opts) (cache st) output (c_cacheData c)\<rparr>))"


section \<open>Scheduling\<close>

text \<open>
  \<^verbatim>\<open>pLimit(concurrency)\<close> starts the tasks in the order in which they were given, a new
  one only while fewer than \<^verbatim>\<open>concurrency\<close> tasks are started and not settled. Which of
  the started tasks continues next depends on when the cache, the worker and the minifier
  answer: a schedule is the list of the indices of the tasks that take a step, in that
  order. An index whose task cannot take a step leaves the run as it is.
\<close>

record 'c run =
  run_state :: "'c state"
  run_tasks :: "task list"

fun is_active :: "task \<Rightarrow> bool" where
  "is_active (AwaitGet _) = True"
| "is_active (AwaitMinify _) = True"
| "is_active (AwaitStore _ _) = True"
| "is_active _ = False"

definition activeCount :: "task list \<Rightarrow> nat" where
  "activeCount ts = length (filter is_active ts)"

definition can_start :: "scheduler \<Rightarrow> task list \<Rightarrow> nat \<Rightarrow> bool" where
  "can_start sched ts i \<longleftrightarrow>
     list_all (\<lambda>t. t \<noteq> Queued) (take i ts) \<and>
     (case concurrency sched of Infinity \<Rightarrow> True | Limit k \<Rightarrow> activeCount ts < k)"

definition set_task :: "'c run \<Rightarrow> nat \<Rightarrow> 'c state \<times> task \<Rightarrow> 'c run" where
  "set_task r i p = \<lparr>run_state = fst p, run_tasks = (run_tasks r)[i := snd p]\<rparr>"

definition step ::
    "'c env \<Rightarrow> options \<Rightarrow> scheduler \<Rightarrow> string list \<Rightarrow> nat \<Rightarrow> 'c run \<Rightarrow> 'c run" where
  "step env opts sched names i r =
     (if i < length (run_tasks r) \<and> i < length names then
        (case run_tasks r ! i of
           Queued \<Rightarrow>
             if can_start sched (run_tasks r) i
             then set_task r i (task_start env opts (names ! i) (run_state r))
             else r
         | AwaitGet c \<Rightarrow> set_task r i (after_get env opts sched c (run_state r))
         | AwaitMinify c \<Rightarrow> set_task r i (after_minify env opts sched c (run_state r))
         | AwaitStore c output \<Rightarrow> set_task r i (after_store env opts c output (run_state r))
         | Done \<Rightarrow> r
         | Rejected \<Rightarrow> r)
      else r)"

definition run_schedule ::
    "'c env \<Rightarrow> options \<Rightarrow> scheduler \<Rightarrow> string list \<Rightarrow> nat list \<Rightarrow> 'c run \<Rightarrow> 'c run" where
  "run_schedule env opts sched names schedule r = fold (step env opts sched names) schedule r"


section \<open>\<^verbatim>\<open>optimize\<close>\<close>

text \<open>
  \<^verbatim>\<open>
    const assetNames = Object.keys(
      typeof assets === 'undefined' ? compilation.assets : assets
    ).filter((assetName) => {
      if (!ModuleFilenameHelpers.matchObject.bind(undefined, this.options)(assetName)) {
        return false;
      }
      const { info } = CssMinimizerPlugin.getAsset(compilation, assetName);
      if (info.minimized) { return false; }
      return true;
    });
  \<close>
  The filter throws (\<open>None\<close>) at a matching name for which \<^verbatim>\<open>getAsset\<close> returns
  \<^verbatim>\<open>undefined\<close>.
\<close>

fun filter_names :: "'c env \<Rightarrow> options \<Rightarrow> 'c state \<Rightarrow> string list \<Rightarrow> string list option" where
  "filter_names env opts st [] = Some []"
| "filter_names env opts st (assetName # rest) =
     (if \<not> matchObject env opts assetName then filter_names env opts st rest
      else (case getAsset st assetName of
              None \<Rightarrow> None
            | Some a \<Rightarrow>
                if info_minimized (a_info a) then filter_names env opts st rest
                else map_option ((#) assetName) (filter_names env opts st rest)))"

definition assetNames ::
    "'c env \<Rightarrow> options \<Rightarrow> 'c state \<Rightarrow> (string \<times> source) list option \<Rightarrow> string list option" where
  "assetNames env opts st assets_arg =
     filter_names env opts st
       (case assets_arg of None \<Rightarrow> object_keys (assets st) | Some a \<Rightarrow> object_keys a)"

definition scheduler_of :: "'c env \<Rightarrow> options \<Rightarrow> string list \<Rightarrow> scheduler" where
  "scheduler_of env opts names =
     make_scheduler (length names) (getAvailableNumberOfCores (os_cpus env) (opt_parallel opts))"

definition initial_run :: "string list \<Rightarrow> 'c state \<Rightarrow> 'c run" where
  "initial_run names st =
     \<lparr>run_state = st\<lparr>log := []\<rparr>, run_tasks = replicate (length names) Queued\<rparr>"

text \<open>
  The run of \<^verbatim>\<open>optimize\<close> under a schedule, and its result: the promise is rejected when
  the filter throws or a task is rejected, resolved when every task has ended
  (\<^verbatim>\<open>await Promise.all(scheduledTasks)\<close>), and pending otherwise. Without a selected asset
  it is resolved at once. A rejected task does not stop the others: their promises are
  not cancelled, and \<^verbatim>\<open>pLimit\<close> goes on starting the tasks that wait. The log of a run
  starts empty.
\<close>

definition optimize_run ::
    "'c env \<Rightarrow> options \<Rightarrow> string list \<Rightarrow> nat list \<Rightarrow> 'c state \<Rightarrow> 'c run" where
  "optimize_run env opts names schedule st =
     run_schedule env opts (scheduler_of env opts names) names schedule (initial_run names st)"

datatype 'c result = OptRejected | OptPending | OptResolved "'c state"

definition optimize ::
    "'c env \<Rightarrow> options \<Rightarrow> (string \<times> source) list option \<Rightarrow> nat list \<Rightarrow> 'c state \<Rightarrow> 'c result" where
  "optimize env opts assets_arg schedule st =
     (case assetNames env opts st assets_arg of
        None \<Rightarrow> OptRejected
      | Some names \<Rightarrow>
          if length names = 0 then OptResolved (st\<lparr>log := []\<rparr>)
          else
            (let r = optimize_run env opts names schedule st
             in if Rejected \<in> set (run_tasks r) then OptRejected
                else if list_all (\<lambda>t. t = Done) (run_tasks r) then OptResolved (run_state r)
                else OptPending))"



section \<open>Reading the log\<close>

text \<open>
  The events of one asset, and the warnings and errors that a list of events pushed.
\<close>

definition events_of :: "string \<Rightarrow> event list \<Rightarrow> event list" where
  "events_of n evs = filter (\<lambda>e. event_name e = n) evs"

definition pushed_warnings :: "event list \<Rightarrow> diag list" where
  "pushed_warnings evs = concat (map (\<lambda>e. case e of PushedWarning _ d \<Rightarrow> [d] | _ \<Rightarrow> []) evs)"

definition pushed_errors :: "event list \<Rightarrow> diag list" where
  "pushed_errors evs = concat (map (\<lambda>e. case e of PushedError _ d \<Rightarrow> [d] | _ \<Rightarrow> []) evs)"



text \<open>
  \<open>effect n evs st st'\<close>: between \<open>st\<close> and \<open>st'\<close> the events \<open>evs\<close>, all of the
  asset \<open>n\<close>, were logged, the warnings and errors among them were pushed, and no other
  asset was touched.
\<close>

definition effect :: "string \<Rightarrow> event list \<Rightarrow> 'c state \<Rightarrow> 'c state \<Rightarrow> bool" where
  "effect n evs st st' \<longleftrightarrow>
     log st' = log st @ evs \<and> (\<forall>e \<in> set evs. event_name e = n) \<and>
     warnings st' = warnings st @ pushed_warnings evs \<and>
     errors st' = errors st @ pushed_errors evs \<and>
     asset_api st' = asset_api st \<and>
     (\<forall>m. m \<noteq> n \<longrightarrow> map_of (assets st') m = map_of (assets st) m)"


section \<open>What a task logs\<close>

text \<open>
  The events of the steps of a task, as lists: of the first step, of a cache miss, of the
  end of a task (with the info that \<^verbatim>\<open>updateAsset\<close> stores; the asset is updated unless
  the loop over the warnings throws) and of the handler of a failure (the error is pushed
  unless building it throws).
\<close>

definition start_events :: "'c env \<Rightarrow> options \<Rightarrow> string \<Rightarrow> asset \<Rightarrow> event list" where
  "start_events env opts n a =
     (if snd (snd (extract_input env opts (a_source a)))
      then [PushedWarning n (invalid_map_warning n)] else [])"

definition miss_events :: "options \<Rightarrow> scheduler \<Rightarrow> ctx \<Rightarrow> event list" where
  "miss_events opts sched c =
     [CacheMiss (c_name c), Invoke (c_name c) (executor_of sched) (minimizerOptions_of opts c)]"

definition new_info :: "bool \<Rightarrow> info \<Rightarrow> ctx \<Rightarrow> info" where
  "new_info api info0 c = (if api then AList.merge info0 (set_minimized (c_info c)) else info0)"

definition finish_events :: "'c env \<Rightarrow> options \<Rightarrow> ctx \<Rightarrow> min_output \<Rightarrow> info \<Rightarrow> event list" where
  "finish_events env opts c out info' =
     map (PushedWarning (c_name c)) (fst (warnings_to_push env opts c out)) @
     (if snd (warnings_to_push env opts c out) = None
      then [Updated (c_name c) (out_source out) info'] else [])"

definition error_events :: "'c env \<Rightarrow> ctx \<Rightarrow> js_error \<Rightarrow> event list" where
  "error_events env c e =
     (case built_error env c e of
        Inl _ \<Rightarrow> []
      | Inr message \<Rightarrow> [PushedError (c_name c) (ErrorObject message)])"

text \<open>
  A task that is settled took its output from the cache, or called the minifier, which
  threw or returned. \<open>outcome_events\<close> are the events of the task after its first step,
  \<open>outcome_ok\<close> says that the result of the minifier call is the one of the outcome,
  \<open>outcome_rejects\<close> that a call of \<^verbatim>\<open>source-map\<close> threw, so that the task is rejected,
  \<open>outcome_asset\<close> is the asset in the store after a task that has ended.
\<close>

datatype outcome = FromCache min_output | Failed js_error | Minified min_result

fun outcome_events ::
    "'c env \<Rightarrow> options \<Rightarrow> scheduler \<Rightarrow> ctx \<Rightarrow> info \<Rightarrow> outcome \<Rightarrow> event list" where
  "outcome_events env opts sched c info' (FromCache out) =
     CacheHit (c_name c) out # finish_events env opts c out info'"
| "outcome_events env opts sched c info' (Failed e) =
     miss_events opts sched c @ Threw (c_name c) e # error_events env c e"
| "outcome_events env opts sched c info' (Minified r) =
     miss_events opts sched c @
     [Returned (c_name c) r, Stored (c_name c) (build_output c r) (c_cacheData c)] @
     finish_events env opts c (build_output c r) info'"

fun outcome_ok :: "'c env \<Rightarrow> options \<Rightarrow> scheduler \<Rightarrow> ctx \<Rightarrow> outcome \<Rightarrow> bool" where
  "outcome_ok env opts sched c (FromCache out) = True"
| "outcome_ok env opts sched c (Failed e) =
     (call_minifier env sched (minimizerOptions_of opts c) = Inl e)"
| "outcome_ok env opts sched c (Minified r) =
     (call_minifier env sched (minimizerOptions_of opts c) = Inr r)"

fun outcome_rejects :: "'c env \<Rightarrow> options \<Rightarrow> ctx \<Rightarrow> outcome \<Rightarrow> bool" where
  "outcome_rejects env opts c (FromCache out) =
     (snd (warnings_to_push env opts c out) \<noteq> None)"
| "outcome_rejects env opts c (Failed e) = isl (built_error env c e)"
| "outcome_rejects env opts c (Minified r) =
     (snd (warnings_to_push env opts c (build_output c r)) \<noteq> None)"

fun outcome_asset :: "ctx \<Rightarrow> source \<times> info \<Rightarrow> info \<Rightarrow> outcome \<Rightarrow> source \<times> info" where
  "outcome_asset c orig info' (FromCache out) = (out_source out, info')"
| "outcome_asset c orig info' (Failed e) = orig"
| "outcome_asset c orig info' (Minified r) = (out_source (build_output c r), info')"

text \<open>
  The invariant of a task: its events so far and its asset in the store, for each of the
  places where it can wait. \<open>c0\<close>, \<open>evs0\<close>, \<open>info'\<close> and \<open>orig\<close> are the context of the
  task, the events of its first step, the info stored at its end and its asset before the
  run. A rejected task has left its asset as it was.
\<close>

fun task_inv ::
    "'c env \<Rightarrow> options \<Rightarrow> scheduler \<Rightarrow> ctx \<Rightarrow> event list \<Rightarrow> info \<Rightarrow> source \<times> info \<Rightarrow>
       task \<Rightarrow> event list \<Rightarrow> (source \<times> info) option \<Rightarrow> bool" where
  "task_inv env opts sched c0 evs0 info' orig Queued evs cur \<longleftrightarrow> evs = [] \<and> cur = Some orig"
| "task_inv env opts sched c0 evs0 info' orig (AwaitGet c) evs cur \<longleftrightarrow>
     c = c0 \<and> evs = evs0 \<and> cur = Some orig"
| "task_inv env opts sched c0 evs0 info' orig (AwaitMinify c) evs cur \<longleftrightarrow>
     c = c0 \<and> evs = evs0 @ miss_events opts sched c0 \<and> cur = Some orig"
| "task_inv env opts sched c0 evs0 info' orig (AwaitStore c out) evs cur \<longleftrightarrow>
     c = c0 \<and> cur = Some orig \<and>
     (\<exists>r. call_minifier env sched (minimizerOptions_of opts c0) = Inr r \<and>
          out = build_output c0 r \<and>
          evs = evs0 @ miss_events opts sched c0 @ [Returned (c_name c0) r])"
| "task_inv env opts sched c0 evs0 info' orig Done evs cur \<longleftrightarrow>
     (\<exists>oc. outcome_ok env opts sched c0 oc \<and> \<not> outcome_rejects env opts c0 oc \<and>
           evs = evs0 @ outcome_events env opts sched c0 info' oc \<and>
           cur = Some (outcome_asset c0 orig info' oc))"
| "task_inv env opts sched c0 evs0 info' orig Rejected evs cur \<longleftrightarrow>
     (\<exists>oc. outcome_ok env opts sched c0 oc \<and> outcome_rejects env opts c0 oc \<and>
           evs = evs0 @ outcome_events env opts sched c0 info' oc \<and>
           cur = Some orig)"

definition task_ok ::
    "'c env \<Rightarrow> options \<Rightarrow> scheduler \<Rightarrow> 'c state \<Rightarrow> string \<Rightarrow> task \<Rightarrow> event list \<Rightarrow>
       (source \<times> info) option \<Rightarrow> bool" where
  "task_ok env opts sched st0 n t evs cur \<longleftrightarrow>
     (\<exists>a orig. getAsset st0 n = Some a \<and> \<not> info_minimized (a_info a) \<and>
        map_of (assets st0) n = Some orig \<and>
        task_inv env opts sched (make_ctx env opts n a) (start_events env opts n a)
          (new_info (asset_api st0) (snd orig) (make_ctx env opts n a)) orig t evs cur)"

text \<open>
  The invariant of a run from the state \<open>st0\<close>: the warnings and errors are the ones of
  \<open>st0\<close> followed by the ones pushed in the log, every event is the event of a selected
  asset, the other assets are as in \<open>st0\<close>, and every task satisfies its invariant.
  \<open>selected\<close> is what the filter guarantees about the names.
\<close>

definition run_inv ::
    "'c env \<Rightarrow> options \<Rightarrow> scheduler \<Rightarrow> string list \<Rightarrow> 'c state \<Rightarrow> 'c run \<Rightarrow> bool" where
  "run_inv env opts sched names st0 r \<longleftrightarrow>
     length (run_tasks r) = length names \<and>
     asset_api (run_state r) = asset_api st0 \<and>
     warnings (run_state r) = warnings st0 @ pushed_warnings (log (run_state r)) \<and>
     errors (run_state r) = errors st0 @ pushed_errors (log (run_state r)) \<and>
     (\<forall>e \<in> set (log (run_state r)). event_name e \<in> set names) \<and>
     (\<forall>m. m \<notin> set names \<longrightarrow> map_of (assets (run_state r)) m = map_of (assets st0) m) \<and>
     (\<forall>i < length names.
        task_ok env opts sched st0 (names ! i) (run_tasks r ! i)
          (events_of (names ! i) (log (run_state r)))
          (map_of (assets (run_state r)) (names ! i)))"

definition selected :: "'c state \<Rightarrow> string list \<Rightarrow> bool" where
  "selected st0 names \<longleftrightarrow>
     distinct names \<and>
     (\<forall>n \<in> set names. \<exists>a. getAsset st0 n = Some a \<and> \<not> info_minimized (a_info a))"

text \<open>
  The invariant of the scheduler: the tasks that have not started are the last ones, and
  no more tasks than the limit are started and not settled.
\<close>

definition sched_inv :: "scheduler \<Rightarrow> 'c run \<Rightarrow> bool" where
  "sched_inv sched r \<longleftrightarrow>
     (\<forall>i j. i < j \<and> j < length (run_tasks r) \<and> run_tasks r ! i = Queued \<longrightarrow>
            run_tasks r ! j = Queued) \<and>
     (\<forall>k. concurrency sched = Limit k \<longrightarrow> activeCount (run_tasks r) \<le> k)"

definition limit_pos :: "scheduler \<Rightarrow> bool" where
  "limit_pos sched \<longleftrightarrow> (\<forall>k. concurrency sched = Limit k \<longrightarrow> 0 < k)"

text \<open>
  A task is settled (it has ended or is rejected) after at most four steps; \<open>rank\<close> counts
  the steps left. The schedule \<open>completion n\<close> gives four steps to each of \<open>n\<close> tasks in
  turn.
\<close>

fun settled :: "task \<Rightarrow> bool" where
  "settled Done = True"
| "settled Rejected = True"
| "settled _ = False"

fun rank :: "task \<Rightarrow> nat" where
  "rank Queued = 4"
| "rank (AwaitGet _) = 3"
| "rank (AwaitMinify _) = 2"
| "rank (AwaitStore _ _) = 1"
| "rank Done = 0"
| "rank Rejected = 0"

definition completion :: "nat \<Rightarrow> nat list" where
  "completion n = concat (map (replicate 4) [0 ..< n])"



section \<open>Example values\<close>

definition ex_warning :: string where
  "ex_warning = ''unknown rule a.css:3:5 tail''"

definition ex_consumer :: "string \<Rightarrow> consumer" where
  "ex_consumer src = (\<lambda>line column. \<lparr>o_source = Some src, o_line = Some 5, o_column = Some 2\<rparr>)"

definition ex_shorten :: shortener where
  "ex_shorten s = s"

definition ex_filter :: "bool \<Rightarrow> warnings_filter" where
  "ex_filter b = (\<lambda>warning file source. b)"

text \<open>
  A cache for the examples: the outputs by the name of the asset.
\<close>

type_synonym ex_cache = "(string \<times> min_output) list"

definition ex_text :: "nat \<Rightarrow> string" where
  "ex_text k = (if k = 0 then ''.a{color: red;  }'' else if k = 1 then ''plain text''
                else if k = 2 then ''.b{'' else if k = 4 then ''.z{color: blue;  }''
                else if k = 5 then ''.b{'' else if k = 6 then ''.y{color: blue;  }''
                else ''.c{color: blue;  }'')"

text \<open>
  Maps for the examples: one that passes \<^verbatim>\<open>isSourceMap\<close> and that the library accepts, and
  one of version 2, which passes \<^verbatim>\<open>isSourceMap\<close> and which the constructor of the library
  refuses.
\<close>

definition ex_valid_map :: jsval where
  "ex_valid_map = JObj [(''version'', JNum 3), (''sources'', JArr [JStr ''original.css'']),
     (''mappings'', JStr ''AAAA'')]"

definition ex_old_map :: jsval where
  "ex_old_map = JObj [(''version'', JNum 2), (''sources'', JArr [JStr ''original.css'']),
     (''mappings'', JStr ''AAAA'')]"

definition ex_map :: "nat \<Rightarrow> jsval" where
  "ex_map k = (if k = 3 then JObj [(''version'', JNum 3)] else if k = 4 then ex_valid_map
               else if k = 5 \<or> k = 6 then ex_old_map else JNull)"

definition ex_zero_warning :: string where
  "ex_zero_warning = ''unknown rule a.css:0:5 tail''"

definition ex_error :: js_error where
  "ex_error = \<lparr>e_message = Some ''Unclosed block'', e_line = Some 1, e_column = Some 1,
               e_stack = None\<rparr>"

definition ex_output_map :: jsval where
  "ex_output_map = JObj [(''version'', JNum 3), (''sources'', JArr [JStr ''c.css'']),
     (''mappings'', JStr ''AAAA'')]"

definition ex_minify :: "string \<Rightarrow> js_error + min_result" where
  "ex_minify input =
     (if input = ''.b{'' then Inl ex_error
      else Inr \<lparr>r_code = filter (\<lambda>c. c \<noteq> CHR '' '') input,
                r_map = (if input = ''.c{color: blue;  }'' \<or> input = ''.z{color: blue;  }''
                         then ex_output_map else JUndefined),
                r_warnings = (if input = ''.z{color: blue;  }''
                              then Some [ex_warning, ex_zero_warning, ex_warning]
                              else Some [ex_warning])\<rparr>)"

text \<open>
  A library for the examples. As \<^verbatim>\<open>source-map\<close> does, the constructor throws for a map
  whose version is not 3 and \<^verbatim>\<open>originalPositionFor\<close> throws for the line 0; every other
  position is line 5, column 2 of \<^verbatim>\<open>original.css\<close>.
\<close>

definition ex_version_error :: js_error where
  "ex_version_error = \<lparr>e_message = Some ''Unsupported version: 2'', e_line = None,
     e_column = None, e_stack = None\<rparr>"

definition ex_line_error :: js_error where
  "ex_line_error = \<lparr>e_message = Some ''Line must be greater than or equal to 1, got 0'',
     e_line = None, e_column = None, e_stack = None\<rparr>"

definition ex_library :: "jsval \<Rightarrow> js_error + lib_consumer" where
  "ex_library m =
     (if get_prop m ''version'' = JNum 3
      then Inr (\<lambda>line column. if line = 0 then Inl ex_line_error
                               else Inr (ex_consumer ''original.css'' line column))
      else Inl ex_version_error)"

definition ex_env :: "nat option \<Rightarrow> ex_cache env" where
  "ex_env cpus =
     \<lparr>os_cpus = cpus,
      matchObject = (\<lambda>opts name. str_includes name ''.css''),
      source_fn = (\<lambda>s. case s of HostSource k \<Rightarrow> Str (ex_text k) | RawSource c \<Rightarrow> Str c
                       | SourceMapSource c _ _ _ _ \<Rightarrow> Str c),
      sourceAndMap_fn = (\<lambda>s. case s of HostSource k \<Rightarrow> Some (Str (ex_text k), ex_map k)
                       | RawSource c \<Rightarrow> Some (Str c, JNull)
                       | SourceMapSource c _ m _ _ \<Rightarrow> Some (Str c, m)),
      buffer_toString = (\<lambda>b. b),
      isWebpack4 = False,
      plugin_version = ''1.0.0'',
      cssMinimizer_version = ''4.0.0'',
      md4_hex = (\<lambda>s. s),
      cache_get = (\<lambda>flag c cd. map_of c (cd_name cd)),
      cache_store = (\<lambda>flag c output cd. (cd_name cd, output) # c),
      serialize = mo_input,
      worker_transform = ex_minify,
      minifyFn = (\<lambda>mo. ex_minify (mo_input mo)),
      SourceMapConsumer = ex_library,
      shorten_fn = ex_shorten\<rparr>"

definition ex_options :: "jsval \<Rightarrow> parallel \<Rightarrow> options" where
  "ex_options sm par =
     \<lparr>opt_test = Some (MRegExp ''[.]css([?].*)?$''), opt_include = None, opt_exclude = None,
      opt_sourceMap = sm, opt_cache = JBool True, opt_parallel = par, opt_minify = None,
      opt_minimizerOptions = JObj [(''preset'', JStr ''default'')],
      opt_warningsFilter = ex_filter True,
      opt_cacheKeys = (\<lambda>defaultCacheKeys name. defaultCacheKeys)\<rparr>"

definition ex_state :: "(string \<times> source \<times> info) list \<Rightarrow> ex_cache \<Rightarrow> ex_cache state" where
  "ex_state as c =
     \<lparr>assets = as, asset_api = True, warnings = [], errors = [], cache = c, log = []\<rparr>"


text \<open>Runs of \<^verbatim>\<open>optimize\<close>: environments with four processors and with one, stores, schedules.\<close>

definition ex_mixed_state :: "ex_cache state" where
  "ex_mixed_state = ex_state [(''a.css'', HostSource 0, []), (''b.txt'', HostSource 1, []),
     (''d.css'', HostSource 0, [(''minimized'', JBool True)])] []"

definition ex_fail_state :: "ex_cache state" where
  "ex_fail_state = ex_state [(''a.css'', HostSource 0, []), (''bad.css'', HostSource 2, [])] []"


definition ex_one_state :: "ex_cache state" where
  "ex_one_state = ex_state [(''a.css'', HostSource 0, [])] []"

definition ex_env4 :: "ex_cache env" where
  "ex_env4 = ex_env (Some 4)"

definition ex_env1 :: "ex_cache env" where
  "ex_env1 = ex_env (Some 1)"

definition ex_interleaved :: "nat list" where
  "ex_interleaved = [0, 1, 0, 1]"

definition ex_threw_schedule :: "nat list" where
  "ex_threw_schedule = [0, 1, 0, 1, 1]"

definition ex_a_result :: min_result where
  "ex_a_result = \<lparr>r_code = ''.a{color:red;}'', r_map = JUndefined,
     r_warnings = Some [ex_warning]\<rparr>"

definition ex_opts :: options where
  "ex_opts = ex_options JUndefined (PBool True)"

definition ex_opts_sm :: options where
  "ex_opts_sm = ex_options (JBool True) (PBool True)"

definition ex_mo :: "string \<Rightarrow> string \<Rightarrow> minimizer_options" where
  "ex_mo name input =
     \<lparr>mo_name = name, mo_input = input, mo_inputSourceMap = JNull, mo_map = JUndefined,
      mo_minimizerOptions = JObj [(''preset'', JStr ''default'')], mo_minify = None\<rparr>"

definition ex_fail_schedule :: "nat list" where
  "ex_fail_schedule = [0, 1, 0, 1, 0, 1, 0]"

definition ex_four :: "nat list" where
  "ex_four = [0, 0, 0, 0]"




definition ex_two :: "nat list" where
  "ex_two = [0, 0]"


text \<open>
  Runs in which a call of \<^verbatim>\<open>source-map\<close> throws. \<^verbatim>\<open>a.css\<close> has a map that the library
  accepts, and the cache holds an output for it with a warning that names the line 0;
  without the cache, the minifier returns three warnings for it, the second of which
  names the line 0. \<^verbatim>\<open>old.css\<close> has a map of version 2 and makes the minifier throw;
  \<^verbatim>\<open>older.css\<close> has a map of version 2 too, and the cache holds an output for it, or the
  minifier returns one, with a warning.
\<close>

definition ex_zero_output :: min_output where
  "ex_zero_output = \<lparr>out_code = ''.z{color:blue;}'', out_map = JNull,
     out_warnings = Some [ex_zero_warning], out_source = RawSource ''.z{color:blue;}''\<rparr>"

definition ex_zero_hit_state :: "ex_cache state" where
  "ex_zero_hit_state = ex_state [(''a.css'', HostSource 4, [])] [(''a.css'', ex_zero_output)]"

definition ex_zero_state :: "ex_cache state" where
  "ex_zero_state = ex_state [(''a.css'', HostSource 4, [])] []"

definition ex_zero_ctx :: ctx where
  "ex_zero_ctx = make_ctx ex_env4 ex_opts_sm ''a.css'' \<lparr>a_source = HostSource 4, a_info = []\<rparr>"

definition ex_zero_result :: min_result where
  "ex_zero_result = \<lparr>r_code = ''.z{color:blue;}'', r_map = ex_output_map,
     r_warnings = Some [ex_warning, ex_zero_warning, ex_warning]\<rparr>"

definition ex_zero_mo :: minimizer_options where
  "ex_zero_mo = (ex_mo ''a.css'' ''.z{color: blue;  }'')\<lparr>mo_inputSourceMap := ex_valid_map,
     mo_map := JBool True\<rparr>"

definition ex_old_state :: "ex_cache state" where
  "ex_old_state = ex_state [(''a.css'', HostSource 0, []), (''old.css'', HostSource 5, [])] []"

definition ex_old_ctx :: ctx where
  "ex_old_ctx = make_ctx ex_env4 ex_opts_sm ''old.css'' \<lparr>a_source = HostSource 5, a_info = []\<rparr>"

definition ex_older_output :: min_output where
  "ex_older_output = \<lparr>out_code = ''.y{color:blue;}'', out_map = JNull,
     out_warnings = Some [ex_warning], out_source = RawSource ''.y{color:blue;}''\<rparr>"

definition ex_older_hit_state :: "ex_cache state" where
  "ex_older_hit_state =
     ex_state [(''older.css'', HostSource 6, [])] [(''older.css'', ex_older_output)]"

definition ex_older_state :: "ex_cache state" where
  "ex_older_state = ex_state [(''older.css'', HostSource 6, [])] []"

definition ex_older_ctx :: ctx where
  "ex_older_ctx =
     make_ctx ex_env4 ex_opts_sm ''older.css'' \<lparr>a_source = HostSource 6, a_info = []\<rparr>"

definition ex_older_result :: min_result where
  "ex_older_result = \<lparr>r_code = ''.y{color:blue;}'', r_map = JUndefined,
     r_warnings = Some [ex_warning]\<rparr>"

definition ex_zero_final :: "ex_cache state" where
  "ex_zero_final = run_state (optimize_run ex_env4 ex_opts_sm [''a.css''] ex_four ex_zero_state)"

definition ex_old_final :: "ex_cache state" where
  "ex_old_final = run_state (optimize_run ex_env4 ex_opts_sm [''a.css'', ''old.css'']
     ex_fail_schedule ex_old_state)"



section \<open>Properties of the functions without state\<close>

lemma starts_with_iff: "starts_with s sub \<longleftrightarrow> (\<exists>q. s = sub @ q)"
  by (induction s sub rule: starts_with.induct) auto

lemma str_includes_iff: "str_includes s sub \<longleftrightarrow> (\<exists>p q. s = p @ sub @ q)"
proof (induction s)
  case Nil
  then show ?case by auto
next
  case (Cons x xs)
  show ?case
  proof
    assume "str_includes (x # xs) sub"
    then consider "starts_with (x # xs) sub" | "str_includes xs sub" by auto
    then show "\<exists>p q. x # xs = p @ sub @ q"
    proof cases
      case 1
      then obtain q where "x # xs = sub @ q" by (auto simp: starts_with_iff)
      then have "x # xs = [] @ sub @ q" by simp
      then show ?thesis by blast
    next
      case 2
      then obtain p q where "xs = p @ sub @ q" using Cons.IH by auto
      then have "x # xs = (x # p) @ sub @ q" by simp
      then show ?thesis by blast
    qed
  next
    assume "\<exists>p q. x # xs = p @ sub @ q"
    then obtain p q where pq: "x # xs = p @ sub @ q" by blast
    show "str_includes (x # xs) sub"
    proof (cases p)
      case Nil
      with pq have "starts_with (x # xs) sub" by (simp add: starts_with_iff)
      then show ?thesis by simp
    next
      case (Cons a p')
      with pq have "xs = p' @ sub @ q" by simp
      then show ?thesis using Cons.IH by auto
    qed
  qed
qed

text \<open>
  C4, as stated, fails: with automatic parallelism on a system whose processor list is empty
  the function returns \<open>- 1\<close>, not \<open>max (0 - 1) 0 = 0\<close>. Nothing clamps the value at zero.
\<close>

theorem getAvailableNumberOfCores_no_clamp_counterexample:
  "getAvailableNumberOfCores (Some 0) (PBool True) \<noteq> max (cpus_length (Some 0) - 1) 0"
  by (simp add: getAvailableNumberOfCores_def cpus_length_def)

text \<open>
  C4 (amended): for automatic parallelism the function returns the number of processors
  minus one (the number of processors being 1 when the system reports none at all), which
  is \<open>max (count - 1) 0\<close> whenever the processor list is not empty; for a number \<open>n\<close>
  it returns \<open>min n (count - 1)\<close>; requesting 2 on 4 processors gives 2.
\<close>

theorem getAvailableNumberOfCores_value:
  "getAvailableNumberOfCores cpus (PBool True) = cpus_length cpus - 1 \<and>
   getAvailableNumberOfCores cpus (PNum n) = min n (cpus_length cpus - 1) \<and>
   (cpus \<noteq> Some 0 \<longrightarrow>
      getAvailableNumberOfCores cpus (PBool True) = max (cpus_length cpus - 1) 0) \<and>
   getAvailableNumberOfCores (Some 4) (PNum 2) = 2"
  by (auto simp: getAvailableNumberOfCores_def cpus_length_def split: option.splits)

text \<open>C4 (amended) at four processors.\<close>

theorem getAvailableNumberOfCores_value_witness:
  "Some (4::nat) \<noteq> Some 0 \<and>
   getAvailableNumberOfCores (Some 4) (PBool True) = max (cpus_length (Some 4) - 1) 0 \<and>
   getAvailableNumberOfCores (Some 4) (PBool True) = 3"
  using getAvailableNumberOfCores_value [of "Some 4" 2] by (simp add: cpus_length_def)

text \<open>
  C8: with the option \<^verbatim>\<open>sourceMap\<close> unset, the effective value is \<^verbatim>\<open>true\<close> exactly when
  \<^verbatim>\<open>devtool\<close> is a string without \<^verbatim>\<open>eval\<close>, without \<^verbatim>\<open>cheap\<close> and with
  \<^verbatim>\<open>source-map\<close> or \<^verbatim>\<open>sourcemap\<close>, or some plugin is a \<^verbatim>\<open>SourceMapDevToolPlugin\<close> whose
  options have a truthy \<^verbatim>\<open>columns\<close>; no other truthy value can result; an option that is
  set is kept.
\<close>

theorem apply_sourceMap_effective:
  "(apply_sourceMap JUndefined devtool plugins = JBool True \<longleftrightarrow>
      (\<exists>s. devtool = DevtoolStr s \<and> \<not> str_includes s ''eval'' \<and> \<not> str_includes s ''cheap'' \<and>
           (str_includes s ''source-map'' \<or> str_includes s ''sourcemap'')) \<or>
      (\<exists>ps. plugins = Some ps \<and>
         (\<exists>p \<in> set ps. \<exists>opts. p = SourceMapDevToolPlugin opts \<and> truthy opts \<and>
                               truthy (get_prop opts ''columns'')))) \<and>
   (truthy (apply_sourceMap JUndefined devtool plugins) \<longleftrightarrow>
      apply_sourceMap JUndefined devtool plugins = JBool True) \<and>
   (sourceMap \<noteq> JUndefined \<longrightarrow> apply_sourceMap sourceMap devtool plugins = sourceMap)"
proof -
  have a: "truthy (devtool_part devtool) \<longleftrightarrow> devtool_part devtool = JBool True"
    by (cases devtool) (auto simp: devtool_part_def js_and_def)
  have b: "devtool_part devtool = JBool True \<longleftrightarrow>
      (\<exists>s. devtool = DevtoolStr s \<and> \<not> str_includes s ''eval'' \<and> \<not> str_includes s ''cheap'' \<and>
           (str_includes s ''source-map'' \<or> str_includes s ''sourcemap''))"
    by (cases devtool) (auto simp: devtool_part_def js_and_def)
  have c: "plugin_with_columns p \<longleftrightarrow>
      (\<exists>opts. p = SourceMapDevToolPlugin opts \<and> truthy opts \<and> truthy (get_prop opts ''columns''))" for p
    by (cases p) (auto simp: js_and_def)
  have d: "plugins_part plugins = JBool True \<longleftrightarrow>
      (\<exists>ps. plugins = Some ps \<and>
         (\<exists>p \<in> set ps. \<exists>opts. p = SourceMapDevToolPlugin opts \<and> truthy opts \<and>
                               truthy (get_prop opts ''columns'')))"
    by (cases plugins) (auto simp: plugins_part_def list_ex_iff c)
  have e: "truthy (plugins_part plugins) \<longleftrightarrow> plugins_part plugins = JBool True"
    by (cases plugins) (auto simp: plugins_part_def)
  have f: "apply_sourceMap JUndefined devtool plugins = JBool True \<longleftrightarrow>
      devtool_part devtool = JBool True \<or> plugins_part plugins = JBool True"
    using a e by (auto simp: apply_sourceMap_def js_or_def)
  have g: "truthy (apply_sourceMap JUndefined devtool plugins) \<longleftrightarrow>
      apply_sourceMap JUndefined devtool plugins = JBool True"
    using a e by (auto simp: apply_sourceMap_def js_or_def)
  have h: "sourceMap \<noteq> JUndefined \<longrightarrow> apply_sourceMap sourceMap devtool plugins = sourceMap"
    by (simp add: apply_sourceMap_def)
  have i: "apply_sourceMap JUndefined devtool plugins = JBool True \<longleftrightarrow>
      (\<exists>s. devtool = DevtoolStr s \<and> \<not> str_includes s ''eval'' \<and> \<not> str_includes s ''cheap'' \<and>
           (str_includes s ''source-map'' \<or> str_includes s ''sourcemap'')) \<or>
      (\<exists>ps. plugins = Some ps \<and>
         (\<exists>p \<in> set ps. \<exists>opts. p = SourceMapDevToolPlugin opts \<and> truthy opts \<and>
                               truthy (get_prop opts ''columns'')))"
    unfolding f b d ..
  from i g h show ?thesis by (intro conjI)
qed

text \<open>C8 at three configurations with the option unset and one with it set.\<close>

theorem apply_sourceMap_effective_witness:
  "apply_sourceMap JUndefined (DevtoolStr ''source-map'') None = JBool True \<and>
   apply_sourceMap JUndefined (DevtoolStr ''cheap-module-source-map'') None \<noteq> JBool True \<and>
   apply_sourceMap JUndefined (DevtoolStr ''eval-source-map'')
     (Some [OtherPlugin, SourceMapDevToolPlugin (JObj [(''columns'', JBool True)])]) = JBool True \<and>
   (JBool False \<noteq> JUndefined \<and>
    apply_sourceMap (JBool False) (DevtoolStr ''source-map'') None = JBool False)"
  using apply_sourceMap_effective [of "DevtoolStr ''source-map''" None "JBool False"]
    apply_sourceMap_effective [of "DevtoolStr ''cheap-module-source-map''" None "JBool False"]
    apply_sourceMap_effective [of "DevtoolStr ''eval-source-map''"
          "Some [OtherPlugin, SourceMapDevToolPlugin (JObj [(''columns'', JBool True)])]" "JBool False"]
  by simp

lemma ex_warning_match:
  "regex_exec ex_warning =
     Some \<lparr>m_before = ''unknown'', m_group1 = ''3'', m_group2 = ''5'', m_after = '' tail''\<rparr>"
  unfolding ex_warning_def by code_simp

lemma show_5_2: "show_num_or ''null'' (Some 5) = ''5''" "show_num_or ''null'' (Some 2) = ''2''"
  by code_simp+

text \<open>
  C6, as stated, fails: the warning has a position, the source map resolves it to a
  position with a source and the filter accepts the warning, but the source is the asset
  itself; the result is the raw warning, nothing stripped and no location appended.
\<close>

theorem buildWarning_own_source_counterexample:
  "regex_exec ex_warning \<noteq> None \<and>
   o_source (ex_consumer ''a.css'' 3 (Some 5)) = Some ''a.css'' \<and>
   ex_filter True ex_warning ''a.css'' None \<and>
   buildWarning ex_warning ''a.css'' (Some (ex_consumer ''a.css'')) (Some ex_shorten)
     (Some (ex_filter True)) = Some (''Css Minimizer Plugin: '' @ ex_warning @ '' '')"
  by (simp add: buildWarning_def resolve_warning_def ex_warning_match ex_consumer_def
      ex_filter_def truthy_str_def)

text \<open>
  C6 (amended): when the warning matches the pattern, the source map resolves the position
  to a non-empty source that is not the asset's own name, a request shortener is given and
  the filter accepts \<open>(warning, file, source)\<close>, the result is the warning without the
  matched text, followed by the shortened source, the original line and the original column.
  Whenever the filter rejects \<open>(warning, file, source or undefined)\<close> the result is
  \<^verbatim>\<open>null\<close>.
\<close>

theorem buildWarning_rewrites_and_filters:
  "(sourceMap = Some sm \<and> regex_exec warning = Some m \<and>
    sm (digits_value (m_group1 m)) (Some (digits_value (m_group2 m))) = orig \<and>
    o_source orig = Some src \<and> src \<noteq> [] \<and> src \<noteq> file \<and>
    requestShortener = Some shorten \<and>
    warningsFilter = Some f \<and> f warning file (Some src) \<longrightarrow>
    buildWarning warning file sourceMap requestShortener warningsFilter =
      Some (''Css Minimizer Plugin: '' @ (m_before m @ m_after m) @ '' '' @
            (shorten src @ '':'' @ show_num_or ''null'' (o_line orig) @ '':'' @
             show_num_or ''null'' (o_column orig)))) \<and>
   (warningsFilter = Some f \<and>
    \<not> f warning file (snd (snd (resolve_warning warning file sourceMap requestShortener))) \<longrightarrow>
    buildWarning warning file sourceMap requestShortener warningsFilter = None)"
  by (auto simp: buildWarning_def resolve_warning_def regex_strip_def truthy_str_def Let_def
      split: prod.splits)

text \<open>C6 (amended) on the scenario of the specification: \<^verbatim>\<open>original.css:5:2\<close>.\<close>

theorem buildWarning_rewrites_and_filters_witness:
  "buildWarning ex_warning ''a.css'' (Some (ex_consumer ''original.css'')) (Some ex_shorten)
     (Some (ex_filter True)) = Some ''Css Minimizer Plugin: unknown tail original.css:5:2'' \<and>
   buildWarning ex_warning ''a.css'' (Some (ex_consumer ''original.css'')) (Some ex_shorten)
     (Some (ex_filter False)) = None"
  using buildWarning_rewrites_and_filters [of "Some (ex_consumer ''original.css'')" "ex_consumer ''original.css''" ex_warning
      "\<lparr>m_before = ''unknown'', m_group1 = ''3'', m_group2 = ''5'', m_after = '' tail''\<rparr>"
      "ex_consumer ''original.css'' 3 (Some 5)" "''original.css''" "''a.css''"
      "Some ex_shorten" ex_shorten "Some (ex_filter True)" "ex_filter True"]
    buildWarning_rewrites_and_filters [of "Some (ex_consumer ''original.css'')" "ex_consumer ''original.css''" ex_warning
      "\<lparr>m_before = ''unknown'', m_group1 = ''3'', m_group2 = ''5'', m_after = '' tail''\<rparr>"
      "ex_consumer ''original.css'' 3 (Some 5)" "''original.css''" "''a.css''"
      "Some ex_shorten" ex_shorten "Some (ex_filter False)" "ex_filter False"]
  by (simp add: ex_warning_match ex_consumer_def ex_filter_def ex_shorten_def digits_value_def
      show_5_2)

text \<open>
  C9: a result other than the raw warning (with an empty location) is possible only when
  the source map resolves the matched position to a non-empty source different from the
  asset's name, with a request shortener; when the resolved source is the asset's name the
  warning keeps its raw text, no location is appended and the filter sees no source.
\<close>

theorem buildWarning_rewrite_only_foreign_source:
  "(buildWarning warning file sourceMap requestShortener warningsFilter = Some msg \<and>
    msg \<noteq> ''Css Minimizer Plugin: '' @ warning @ '' '' \<longrightarrow>
    (\<exists>sm m shorten src.
       sourceMap = Some sm \<and> regex_exec warning = Some m \<and> requestShortener = Some shorten \<and>
       o_source (sm (digits_value (m_group1 m)) (Some (digits_value (m_group2 m)))) = Some src \<and>
       src \<noteq> [] \<and> src \<noteq> file)) \<and>
   (sourceMap = Some sm \<and> regex_exec warning = Some m \<and>
    o_source (sm (digits_value (m_group1 m)) (Some (digits_value (m_group2 m)))) = Some file \<longrightarrow>
    buildWarning warning file sourceMap requestShortener warningsFilter =
      (case warningsFilter of
         Some f \<Rightarrow>
           if f warning file None then Some (''Css Minimizer Plugin: '' @ warning @ '' '') else None
       | None \<Rightarrow> Some (''Css Minimizer Plugin: '' @ warning @ '' '')))"
  by (auto simp: buildWarning_def resolve_warning_def truthy_str_def Let_def
      split: prod.splits option.splits if_splits)

text \<open>C9 on a map that resolves to the asset itself and on one that resolves elsewhere.\<close>

theorem buildWarning_rewrite_only_foreign_source_witness:
  "buildWarning ex_warning ''a.css'' (Some (ex_consumer ''a.css'')) (Some ex_shorten) None =
     Some ''Css Minimizer Plugin: unknown rule a.css:3:5 tail '' \<and>
   buildWarning ex_warning ''a.css'' (Some (ex_consumer ''original.css'')) (Some ex_shorten) None =
     Some ''Css Minimizer Plugin: unknown tail original.css:5:2'' \<and>
   (\<exists>sm m shorten src.
       Some (ex_consumer ''original.css'') = Some sm \<and> regex_exec ex_warning = Some m \<and>
       Some ex_shorten = Some shorten \<and>
       o_source (sm (digits_value (m_group1 m)) (Some (digits_value (m_group2 m)))) = Some src \<and>
       src \<noteq> [] \<and> src \<noteq> ''a.css'')"
proof -
  have a: "buildWarning ex_warning ''a.css'' (Some (ex_consumer ''original.css'')) (Some ex_shorten)
      None = Some ''Css Minimizer Plugin: unknown tail original.css:5:2''"
    by (simp add: buildWarning_def resolve_warning_def regex_strip_def ex_warning_match
        ex_consumer_def ex_shorten_def truthy_str_def show_5_2)
  have b: "''Css Minimizer Plugin: unknown tail original.css:5:2'' \<noteq>
      ''Css Minimizer Plugin: '' @ ex_warning @ '' ''"
    by (simp add: ex_warning_def)
  have c: "buildWarning ex_warning ''a.css'' (Some (ex_consumer ''a.css'')) (Some ex_shorten) None =
      Some (''Css Minimizer Plugin: '' @ ex_warning @ '' '')"
  proof -
    have h: "Some (ex_consumer ''a.css'') = Some (ex_consumer ''a.css'') \<and>
        regex_exec ex_warning = Some \<lparr>m_before = ''unknown'', m_group1 = ''3'', m_group2 = ''5'',
          m_after = '' tail''\<rparr> \<and>
        o_source (ex_consumer ''a.css''
          (digits_value (m_group1 \<lparr>m_before = ''unknown'', m_group1 = ''3'', m_group2 = ''5'',
             m_after = '' tail''\<rparr>))
          (Some (digits_value (m_group2 \<lparr>m_before = ''unknown'', m_group1 = ''3'',
             m_group2 = ''5'', m_after = '' tail''\<rparr>)))) = Some ''a.css''"
      by (simp add: ex_warning_match ex_consumer_def)
    from mp [OF conjunct2 [OF buildWarning_rewrite_only_foreign_source [of ex_warning "''a.css''" "Some (ex_consumer ''a.css'')"
        "Some ex_shorten" None "[]" "ex_consumer ''a.css''"
        "\<lparr>m_before = ''unknown'', m_group1 = ''3'', m_group2 = ''5'', m_after = '' tail''\<rparr>"]] h]
    show ?thesis by simp
  qed
  have d: "\<exists>sm m shorten src.
       Some (ex_consumer ''original.css'') = Some sm \<and> regex_exec ex_warning = Some m \<and>
       Some ex_shorten = Some shorten \<and>
       o_source (sm (digits_value (m_group1 m)) (Some (digits_value (m_group2 m)))) = Some src \<and>
       src \<noteq> [] \<and> src \<noteq> ''a.css''"
    by (rule mp [OF conjunct1 [OF buildWarning_rewrite_only_foreign_source [of ex_warning "''a.css''"
        "Some (ex_consumer ''original.css'')" "Some ex_shorten" None
        "''Css Minimizer Plugin: unknown tail original.css:5:2''"]]]) (intro conjI a b)
  from c have c': "buildWarning ex_warning ''a.css'' (Some (ex_consumer ''a.css''))
      (Some ex_shorten) None = Some ''Css Minimizer Plugin: unknown rule a.css:3:5 tail ''"
    by (simp add: ex_warning_def)
  from c' a d show ?thesis by (intro conjI)
qed



section \<open>Calls of the library that throw\<close>

text \<open>
  \<^verbatim>\<open>buildWarning\<close> and \<^verbatim>\<open>buildError\<close> read the consumer at one position only, so that a
  call with a consumer of the library throws what the call of \<^verbatim>\<open>originalPositionFor\<close> at that
  position throws, and is otherwise the function of what that call returned.
\<close>

lemma resolve_warning_position:
  assumes "\<And>line column. warning_position warning = Some (line, column) \<Longrightarrow>
             sm line column = sm' line column"
  shows "resolve_warning warning file (Some sm) rs = resolve_warning warning file (Some sm') rs"
proof (cases "regex_exec warning")
  case None
  then show ?thesis by (simp add: resolve_warning_def)
next
  case (Some m)
  then have "warning_position warning =
      Some (digits_value (m_group1 m), Some (digits_value (m_group2 m)))"
    by (simp add: warning_position_def)
  from assms [OF this] Some show ?thesis by (simp add: resolve_warning_def)
qed

lemma buildWarning_position:
  assumes "\<And>line column. warning_position warning = Some (line, column) \<Longrightarrow>
             sm line column = sm' line column"
  shows "buildWarning warning file (Some sm) rs flt = buildWarning warning file (Some sm') rs flt"
  by (simp only: buildWarning_def resolve_warning_position [OF assms])

lemma buildError_position:
  assumes "\<And>line column. error_position error = Some (line, column) \<Longrightarrow>
             sm line column = sm' line column"
  shows "buildError error file (Some sm) rs = buildError error file (Some sm') rs"
proof (cases "truthy_num (e_line error)")
  case False
  then show ?thesis by (simp add: buildError_def)
next
  case True
  then have "error_position error = Some (the (e_line error), e_column error)"
    by (simp add: error_position_def)
  from assms [OF this] True show ?thesis by (simp add: buildError_def)
qed

lemma call_buildWarning_throws:
  assumes "warning_position warning = Some (line, column)" and "lc line column = Inl e"
  shows "call_buildWarning warning file (Some lc) rs flt = Inl e"
  using assms by (simp add: call_buildWarning_def lookup_throws_def)

lemma call_buildWarning_returns:
  assumes "warning_position warning = Some (line, column)" and "lc line column = Inr orig"
      and "sm line column = orig"
  shows "call_buildWarning warning file (Some lc) rs flt =
           Inr (buildWarning warning file (Some sm) rs flt)"
proof -
  have "buildWarning warning file (Some (returned lc)) rs flt =
        buildWarning warning file (Some sm) rs flt"
    by (rule buildWarning_position) (use assms in \<open>simp add: returned_def\<close>)
  with assms show ?thesis by (simp add: call_buildWarning_def lookup_throws_def)
qed

lemma call_buildWarning_no_call:
  assumes "sourceMap = None \<or> warning_position warning = None"
  shows "call_buildWarning warning file sourceMap rs flt =
           Inr (buildWarning warning file (map_option returned sourceMap) rs flt)"
  using assms by (auto simp: call_buildWarning_def lookup_throws_def split: option.splits)

lemma call_buildError_throws:
  assumes "error_position error = Some (line, column)" and "lc line column = Inl e"
  shows "call_buildError error file (Some lc) rs = Inl e"
  using assms by (simp add: call_buildError_def lookup_throws_def)

lemma call_buildError_returns:
  assumes "error_position error = Some (line, column)" and "lc line column = Inr orig"
      and "sm line column = orig"
  shows "call_buildError error file (Some lc) rs = Inr (buildError error file (Some sm) rs)"
proof -
  have "buildError error file (Some (returned lc)) rs = buildError error file (Some sm) rs"
    by (rule buildError_position) (use assms in \<open>simp add: returned_def\<close>)
  with assms show ?thesis by (simp add: call_buildError_def lookup_throws_def)
qed

lemma call_buildError_no_call:
  assumes "sourceMap = None \<or> error_position error = None"
  shows "call_buildError error file sourceMap rs =
           Inr (buildError error file (map_option returned sourceMap) rs)"
  using assms by (auto simp: call_buildError_def lookup_throws_def split: option.splits)


section \<open>The effects of the steps of a task\<close>

lemma pushed_warnings_simps [simp]:
  "pushed_warnings [] = []"
  "pushed_warnings (xs @ ys) = pushed_warnings xs @ pushed_warnings ys"
  "pushed_warnings (PushedWarning n d # xs) = d # pushed_warnings xs"
  "pushed_warnings (CacheHit n out # xs) = pushed_warnings xs"
  "pushed_warnings (CacheMiss n # xs) = pushed_warnings xs"
  "pushed_warnings (Invoke n ex mo # xs) = pushed_warnings xs"
  "pushed_warnings (Threw n err # xs) = pushed_warnings xs"
  "pushed_warnings (Returned n res # xs) = pushed_warnings xs"
  "pushed_warnings (Stored n out cd # xs) = pushed_warnings xs"
  "pushed_warnings (PushedError n d # xs) = pushed_warnings xs"
  "pushed_warnings (Updated n src inf0 # xs) = pushed_warnings xs"
  by (simp_all add: pushed_warnings_def)

lemma pushed_errors_simps [simp]:
  "pushed_errors [] = []"
  "pushed_errors (xs @ ys) = pushed_errors xs @ pushed_errors ys"
  "pushed_errors (PushedError n d # xs) = d # pushed_errors xs"
  "pushed_errors (CacheHit n out # xs) = pushed_errors xs"
  "pushed_errors (CacheMiss n # xs) = pushed_errors xs"
  "pushed_errors (Invoke n ex mo # xs) = pushed_errors xs"
  "pushed_errors (Threw n err # xs) = pushed_errors xs"
  "pushed_errors (Returned n res # xs) = pushed_errors xs"
  "pushed_errors (Stored n out cd # xs) = pushed_errors xs"
  "pushed_errors (PushedWarning n d # xs) = pushed_errors xs"
  "pushed_errors (Updated n src inf0 # xs) = pushed_errors xs"
  by (simp_all add: pushed_errors_def)

lemma pushed_warnings_map [simp]: "pushed_warnings (map (PushedWarning n) ds) = ds"
  by (induction ds) simp_all

lemma pushed_errors_map [simp]: "pushed_errors (map (PushedWarning n) ds) = []"
  by (induction ds) simp_all

lemma events_of_simps [simp]:
  "events_of n [] = []"
  "events_of n (xs @ ys) = events_of n xs @ events_of n ys"
  "events_of n (e # xs) = (if event_name e = n then e # events_of n xs else events_of n xs)"
  by (simp_all add: events_of_def)

lemma events_of_same: "\<forall>e \<in> set evs. event_name e = n \<Longrightarrow> events_of n evs = evs"
  by (induction evs) auto

lemma events_of_other: "\<forall>e \<in> set evs. event_name e = n \<Longrightarrow> m \<noteq> n \<Longrightarrow> events_of m evs = []"
  by (induction evs) auto

lemma effect_refl: "effect n [] st st"
  by (simp add: effect_def)

lemma effect_trans:
  "effect n e1 st st1 \<Longrightarrow> effect n e2 st1 st2 \<Longrightarrow> effect n (e1 @ e2) st st2"
  by (auto simp: effect_def)

lemma effect_push_warning: "effect n [PushedWarning n d] st (push_warning n d st)"
  by (simp add: effect_def push_warning_def)

lemma assets_push_warning [simp]: "assets (push_warning n d st) = assets st"
  by (simp add: push_warning_def)

lemma cache_push_warning [simp]: "cache (push_warning n d st) = cache st"
  by (simp add: push_warning_def)

lemma effect_push_error: "effect n [PushedError n d] st (push_error n d st)"
  by (simp add: effect_def push_error_def)

lemma assets_push_error [simp]: "assets (push_error n d st) = assets st"
  by (simp add: push_error_def)

lemma effect_fold_push:
  "effect n (map (PushedWarning n) ds) st (fold (push_warning n) ds st)"
proof (induction ds arbitrary: st)
  case Nil
  show ?case by (simp add: effect_refl)
next
  case (Cons d ds)
  from effect_trans [OF effect_push_warning Cons.IH]
  show ?case by simp
qed

lemma assets_fold_push [simp]: "assets (fold (push_warning n) ds st) = assets st"
  by (induction ds arbitrary: st) simp_all

lemma effect_emit_CacheHit: "effect n [CacheHit n out] st (emit (CacheHit n out) st)"
  and effect_emit_CacheMiss: "effect n [CacheMiss n] st (emit (CacheMiss n) st)"
  and effect_emit_Invoke: "effect n [Invoke n ex mo] st (emit (Invoke n ex mo) st)"
  and effect_emit_Threw: "effect n [Threw n err] st (emit (Threw n err) st)"
  and effect_emit_Returned: "effect n [Returned n res] st (emit (Returned n res) st)"
  and effect_emit_Stored: "effect n [Stored n out cd] st (emit (Stored n out cd) st)"
  by (simp_all add: effect_def emit_def)

lemma assets_emit [simp]: "assets (emit e st) = assets st"
  by (simp add: emit_def)

lemma cache_emit [simp]: "cache (emit e st) = cache st"
  by (simp add: emit_def)

lemma effect_cache: "effect n [] st (st\<lparr>cache := c\<rparr>)"
  by (simp add: effect_def)

lemma updateAsset_effect:
  assumes "map_of (assets st) n = Some (src0, info0)"
  shows "\<exists>st'. updateAsset st n src inf0 = Some st' \<and>
           effect n [Updated n src (if asset_api st then AList.merge info0 inf0 else info0)] st st' \<and>
           map_of (assets st') n =
             Some (src, if asset_api st then AList.merge info0 inf0 else info0)"
  using assms by (simp add: updateAsset_def effect_def Let_def update_conv')

lemma c_name_make_ctx [simp]: "c_name (make_ctx env opts n a) = n"
  by (simp add: make_ctx_def split: prod.splits)

lemma c_info_make_ctx [simp]: "c_info (make_ctx env opts n a) = a_info a"
  by (simp add: make_ctx_def split: prod.splits)

lemma task_start_effect:
  assumes "getAsset st n = Some a" "\<not> info_minimized (a_info a)"
  shows "\<exists>st'. task_start env opts n st = (st', AwaitGet (make_ctx env opts n a)) \<and>
           effect n (start_events env opts n a) st st' \<and> assets st' = assets st \<and>
           cache st' = cache st"
  using assms
  by (auto simp: task_start_def start_events_def effect_refl effect_push_warning)

lemma finish_effect:
  assumes "map_of (assets st) (c_name c) = Some (src0, info0)"
  shows "\<exists>st'. finish env opts c out st =
             (st', if snd (warnings_to_push env opts c out) = None then Done else Rejected) \<and>
           effect (c_name c) (finish_events env opts c out (new_info (asset_api st) info0 c)) st st' \<and>
           map_of (assets st') (c_name c) =
             Some (if snd (warnings_to_push env opts c out) = None
                   then (out_source out, new_info (asset_api st) info0 c) else (src0, info0))"
proof -
  let ?n = "c_name c"
  obtain ds thrown where wp: "warnings_to_push env opts c out = (ds, thrown)"
    by (cases "warnings_to_push env opts c out")
  let ?st1 = "fold (push_warning ?n) ds st"
  have e1: "effect ?n (map (PushedWarning ?n) ds) st ?st1"
    by (rule effect_fold_push)
  have api: "asset_api ?st1 = asset_api st"
    using e1 by (simp add: effect_def)
  have m1: "map_of (assets ?st1) ?n = Some (src0, info0)"
    using assms by simp
  show ?thesis
  proof (cases thrown)
    case (Some e)
    have "finish env opts c out st = (?st1, Rejected)"
      by (simp add: finish_def wp Some Let_def)
    moreover have "effect ?n (finish_events env opts c out (new_info (asset_api st) info0 c)) st ?st1"
      using e1 by (simp add: finish_events_def wp Some)
    ultimately show ?thesis using m1 by (simp add: wp Some)
  next
    case None
    from updateAsset_effect [OF m1, of "out_source out" "set_minimized (c_info c)"]
    obtain st' where u: "updateAsset ?st1 ?n (out_source out) (set_minimized (c_info c)) = Some st'"
      and e2: "effect ?n [Updated ?n (out_source out) (new_info (asset_api st) info0 c)] ?st1 st'"
      and m: "map_of (assets st') ?n = Some (out_source out, new_info (asset_api st) info0 c)"
      unfolding new_info_def api by blast
    have "finish env opts c out st = (st', Done)"
      using u by (simp add: finish_def wp None Let_def)
    moreover have "effect ?n (finish_events env opts c out (new_info (asset_api st) info0 c)) st st'"
      using effect_trans [OF e1 e2] by (simp add: finish_events_def wp None)
    ultimately show ?thesis using m by (simp add: wp None)
  qed
qed

lemma after_get_hit:
  assumes "cache_get env (opt_cache opts) (cache st) (c_cacheData c) = Some out"
      and "map_of (assets st) (c_name c) = Some (src0, info0)"
  shows "\<exists>st'. after_get env opts sched c st =
             (st', if snd (warnings_to_push env opts c out) = None then Done else Rejected) \<and>
           effect (c_name c)
             (CacheHit (c_name c) out #
              finish_events env opts c out (new_info (asset_api st) info0 c)) st st' \<and>
           map_of (assets st') (c_name c) =
             Some (if snd (warnings_to_push env opts c out) = None
                   then (out_source out, new_info (asset_api st) info0 c) else (src0, info0))"
proof -
  let ?st1 = "emit (CacheHit (c_name c) out) st"
  let ?t = "if snd (warnings_to_push env opts c out) = None then Done else Rejected"
  have e1: "effect (c_name c) [CacheHit (c_name c) out] st ?st1"
    by (rule effect_emit_CacheHit)
  have api: "asset_api ?st1 = asset_api st" by (simp add: emit_def)
  have "map_of (assets ?st1) (c_name c) = Some (src0, info0)"
    using assms(2) by simp
  from finish_effect [OF this, of env opts out] obtain st'
    where f: "finish env opts c out ?st1 = (st', ?t)"
      and e2: "effect (c_name c) (finish_events env opts c out (new_info (asset_api st) info0 c))
                 ?st1 st'"
      and m: "map_of (assets st') (c_name c) =
                Some (if snd (warnings_to_push env opts c out) = None
                      then (out_source out, new_info (asset_api st) info0 c) else (src0, info0))"
    unfolding api by blast
  have "after_get env opts sched c st = (st', ?t)"
    using assms(1) f by (simp add: after_get_def)
  moreover from effect_trans [OF e1 e2]
  have "effect (c_name c)
          (CacheHit (c_name c) out #
           finish_events env opts c out (new_info (asset_api st) info0 c)) st st'"
    by simp
  ultimately show ?thesis using m by blast
qed

lemma after_get_miss:
  assumes "cache_get env (opt_cache opts) (cache st) (c_cacheData c) = None"
  shows "\<exists>st'. after_get env opts sched c st = (st', AwaitMinify c) \<and>
           effect (c_name c) (miss_events opts sched c) st st' \<and> assets st' = assets st"
proof -
  from effect_trans [OF effect_emit_CacheMiss effect_emit_Invoke]
  have "effect (c_name c) (miss_events opts sched c) st
          (emit (Invoke (c_name c) (executor_of sched) (minimizerOptions_of opts c))
             (emit (CacheMiss (c_name c)) st))"
    by (simp add: miss_events_def)
  then show ?thesis using assms by (simp add: after_get_def)
qed

lemma after_minify_throw:
  assumes "call_minifier env sched (minimizerOptions_of opts c) = Inl e"
  shows "\<exists>st'. after_minify env opts sched c st =
             (st', if isl (built_error env c e) then Rejected else Done) \<and>
           effect (c_name c) (Threw (c_name c) e # error_events env c e) st st' \<and>
           assets st' = assets st"
proof (cases "built_error env c e")
  case (Inl e')
  have "effect (c_name c) [Threw (c_name c) e] st (emit (Threw (c_name c) e) st)"
    by (rule effect_emit_Threw)
  then show ?thesis using assms Inl by (simp add: after_minify_def error_events_def)
next
  case (Inr message)
  from effect_trans [OF effect_emit_Threw effect_push_error]
  have "effect (c_name c) [Threw (c_name c) e, PushedError (c_name c) (ErrorObject message)] st
          (push_error (c_name c) (ErrorObject message) (emit (Threw (c_name c) e) st))"
    by simp
  then show ?thesis using assms Inr by (simp add: after_minify_def error_events_def)
qed

lemma after_minify_return:
  assumes "call_minifier env sched (minimizerOptions_of opts c) = Inr r"
  shows "\<exists>st'. after_minify env opts sched c st = (st', AwaitStore c (build_output c r)) \<and>
           effect (c_name c) [Returned (c_name c) r] st st' \<and> assets st' = assets st"
  using assms by (simp add: after_minify_def effect_emit_Returned)

lemma after_store_effect:
  assumes "map_of (assets st) (c_name c) = Some (src0, info0)"
  shows "\<exists>st'. after_store env opts c out st =
             (st', if snd (warnings_to_push env opts c out) = None then Done else Rejected) \<and>
           effect (c_name c)
             (Stored (c_name c) out (c_cacheData c) #
              finish_events env opts c out (new_info (asset_api st) info0 c)) st st' \<and>
           map_of (assets st') (c_name c) =
             Some (if snd (warnings_to_push env opts c out) = None
                   then (out_source out, new_info (asset_api st) info0 c) else (src0, info0))"
proof -
  let ?st0 = "st\<lparr>cache := cache_store env (opt_cache opts) (cache st) out (c_cacheData c)\<rparr>"
  let ?st1 = "emit (Stored (c_name c) out (c_cacheData c)) ?st0"
  let ?t = "if snd (warnings_to_push env opts c out) = None then Done else Rejected"
  have e1: "effect (c_name c) [Stored (c_name c) out (c_cacheData c)] st ?st1"
    using effect_trans [OF effect_cache effect_emit_Stored] by simp
  have api: "asset_api ?st1 = asset_api st" by (simp add: emit_def)
  have "map_of (assets ?st1) (c_name c) = Some (src0, info0)"
    using assms by simp
  from finish_effect [OF this, of env opts out] obtain st'
    where f: "finish env opts c out ?st1 = (st', ?t)"
      and e2: "effect (c_name c) (finish_events env opts c out (new_info (asset_api st) info0 c))
                 ?st1 st'"
      and m: "map_of (assets st') (c_name c) =
                Some (if snd (warnings_to_push env opts c out) = None
                      then (out_source out, new_info (asset_api st) info0 c) else (src0, info0))"
    unfolding api by blast
  have "after_store env opts c out st = (st', ?t)"
    using f by (simp add: after_store_def)
  moreover from effect_trans [OF e1 e2]
  have "effect (c_name c)
          (Stored (c_name c) out (c_cacheData c) #
           finish_events env opts c out (new_info (asset_api st) info0 c)) st st'"
    by simp
  ultimately show ?thesis using m by blast
qed

section \<open>The invariant of a run\<close>

lemma getAsset_log [simp]: "getAsset (st\<lparr>log := l\<rparr>) n = getAsset st n"
  by (auto simp: getAsset_def split: option.splits)

lemma getAsset_Some_map_of: "getAsset st n = Some a \<Longrightarrow> \<exists>orig. map_of (assets st) n = Some orig"
  by (auto simp: getAsset_def split: option.splits)

lemma getAsset_cong:
  "map_of (assets st) n = map_of (assets st') n \<Longrightarrow> asset_api st = asset_api st' \<Longrightarrow>
   getAsset st n = getAsset st' n"
  by (auto simp: getAsset_def split: option.splits)

lemma run_inv_initial:
  assumes "selected st0 names"
  shows "run_inv env opts sched names st0 (initial_run names st0)"
proof -
  have "task_ok env opts sched st0 (names ! i) Queued [] (map_of (assets st0) (names ! i))"
    if "i < length names" for i
  proof -
    from that have "names ! i \<in> set names" by simp
    with assms obtain a where a: "getAsset st0 (names ! i) = Some a"
      "\<not> info_minimized (a_info a)"
      unfolding selected_def by blast
    from getAsset_Some_map_of [OF a(1)] obtain orig
      where "map_of (assets st0) (names ! i) = Some orig" by blast
    with a show ?thesis by (auto simp: task_ok_def)
  qed
  then show ?thesis by (simp add: run_inv_def initial_run_def)
qed

lemma run_inv_update:
  assumes inv: "run_inv env opts sched names st0 r"
      and d: "distinct names" and i: "i < length names"
      and eff: "effect (names ! i) evs (run_state r) st'"
      and ok: "task_ok env opts sched st0 (names ! i) t'
                 (events_of (names ! i) (log (run_state r)) @ evs)
                 (map_of (assets st') (names ! i))"
  shows "run_inv env opts sched names st0 (set_task r i (st', t'))"
proof -
  let ?st = "run_state r"
  from inv have len: "length (run_tasks r) = length names" by (simp add: run_inv_def)
  from eff have l: "log st' = log ?st @ evs" and nm: "\<forall>e \<in> set evs. event_name e = names ! i"
    and w: "warnings st' = warnings ?st @ pushed_warnings evs"
    and e: "errors st' = errors ?st @ pushed_errors evs"
    and api: "asset_api st' = asset_api ?st"
    and fr: "\<forall>m. m \<noteq> names ! i \<longrightarrow> map_of (assets st') m = map_of (assets ?st) m"
    by (simp_all add: effect_def)
  have a1: "\<forall>e \<in> set (log st'). event_name e \<in> set names"
    using inv nm i by (auto simp: run_inv_def l)
  have a2: "\<forall>m. m \<notin> set names \<longrightarrow> map_of (assets st') m = map_of (assets st0) m"
  proof (intro allI impI)
    fix m assume m: "m \<notin> set names"
    with i have "m \<noteq> names ! i" by auto
    with fr have "map_of (assets st') m = map_of (assets ?st) m" by simp
    with inv m show "map_of (assets st') m = map_of (assets st0) m" by (simp add: run_inv_def)
  qed
  have a3: "task_ok env opts sched st0 (names ! j) ((run_tasks r)[i := t'] ! j)
              (events_of (names ! j) (log st')) (map_of (assets st') (names ! j))"
    if j: "j < length names" for j
  proof (cases "j = i")
    case True
    have "events_of (names ! i) (log st') = events_of (names ! i) (log ?st) @ evs"
      using nm by (simp add: l events_of_same)
    with ok True len i show ?thesis by simp
  next
    case False
    with d i j have ne: "names ! j \<noteq> names ! i" by (simp add: nth_eq_iff_index_eq)
    have "events_of (names ! j) (log st') = events_of (names ! j) (log ?st)"
      using events_of_other [OF nm ne] by (simp add: l)
    moreover have "map_of (assets st') (names ! j) = map_of (assets ?st) (names ! j)"
      using fr ne by simp
    moreover have "task_ok env opts sched st0 (names ! j) (run_tasks r ! j)
        (events_of (names ! j) (log ?st)) (map_of (assets ?st) (names ! j))"
      using inv j by (simp add: run_inv_def)
    ultimately show ?thesis using False by simp
  qed
  show ?thesis
    unfolding run_inv_def set_task_def
    using inv len a1 a2 a3 w e api by (simp add: run_inv_def l)
qed

lemma run_inv_step:
  assumes inv: "run_inv env opts sched names st0 r" and sel: "selected st0 names"
  shows "run_inv env opts sched names st0 (step env opts sched names i r)"
proof (cases "i < length (run_tasks r) \<and> i < length names")
  case False
  then have "step env opts sched names i r = r" unfolding step_def by (rule if_not_P)
  then show ?thesis using inv by simp
next
  case True
  then have i: "i < length names" by simp
  let ?n = "names ! i"
  let ?st = "run_state r"
  from sel have d: "distinct names" by (simp add: selected_def)
  from inv have api: "asset_api ?st = asset_api st0" by (simp add: run_inv_def)
  from inv i obtain a orig where a: "getAsset st0 ?n = Some a"
    and nmin: "\<not> info_minimized (a_info a)"
    and orig: "map_of (assets st0) ?n = Some orig"
    and ti: "task_inv env opts sched (make_ctx env opts ?n a) (start_events env opts ?n a)
               (new_info (asset_api st0) (snd orig) (make_ctx env opts ?n a)) orig
               (run_tasks r ! i) (events_of ?n (log ?st)) (map_of (assets ?st) ?n)"
    unfolding run_inv_def task_ok_def by blast
  let ?c = "make_ctx env opts ?n a"
  let ?e0 = "start_events env opts ?n a"
  let ?info = "new_info (asset_api st0) (snd orig) ?c"
  have okI: "task_ok env opts sched st0 ?n t evs cur"
    if "task_inv env opts sched ?c ?e0 ?info orig t evs cur" for t evs cur
    using that a nmin orig unfolding task_ok_def by blast
  obtain src0 info0 where so: "orig = (src0, info0)" by (cases orig)
  show ?thesis
  proof (cases "run_tasks r ! i")
    case Queued
    show ?thesis
    proof (cases "can_start sched (run_tasks r) i")
      case False
      with Queued True inv show ?thesis by (simp add: step_def)
    next
      case cs: True
      from ti Queued have ev: "events_of ?n (log ?st) = []"
        and cur: "map_of (assets ?st) ?n = Some orig" by simp_all
      have "getAsset ?st ?n = getAsset st0 ?n"
        by (rule getAsset_cong) (simp_all add: cur orig api)
      with a have "getAsset ?st ?n = Some a" by simp
      from task_start_effect [OF this nmin, of env opts] obtain st'
        where ts: "task_start env opts ?n ?st = (st', AwaitGet ?c)"
          and eff: "effect ?n ?e0 ?st st'" and as: "assets st' = assets ?st"
        by blast
      have "task_inv env opts sched ?c ?e0 ?info orig (AwaitGet ?c)
              (events_of ?n (log ?st) @ ?e0) (map_of (assets st') ?n)"
        by (simp add: ev as cur)
      from run_inv_update [OF inv d i eff okI [OF this]]
      show ?thesis using True Queued cs ts by (simp add: step_def)
    qed
  next
    case (AwaitGet c)
    with ti have c: "c = ?c" and ev: "events_of ?n (log ?st) = ?e0"
      and cur: "map_of (assets ?st) ?n = Some (src0, info0)" by (simp_all add: so)
    have cur': "map_of (assets ?st) (c_name ?c) = Some (src0, info0)" using cur by simp
    show ?thesis
    proof (cases "cache_get env (opt_cache opts) (cache ?st) (c_cacheData ?c)")
      case None
      from after_get_miss [OF None, of sched] obtain st'
        where ag: "after_get env opts sched ?c ?st = (st', AwaitMinify ?c)"
          and eff: "effect ?n (miss_events opts sched ?c) ?st st'"
          and as: "assets st' = assets ?st"
        by auto
      have "task_inv env opts sched ?c ?e0 ?info orig (AwaitMinify ?c)
              (events_of ?n (log ?st) @ miss_events opts sched ?c) (map_of (assets st') ?n)"
        by (simp add: ev as cur so)
      from run_inv_update [OF inv d i eff okI [OF this]]
      show ?thesis using True AwaitGet c ag by (simp add: step_def)
    next
      case (Some out)
      let ?t = "if snd (warnings_to_push env opts ?c out) = None then Done else Rejected"
      from after_get_hit [OF Some cur', of sched] obtain st'
        where ag: "after_get env opts sched ?c ?st = (st', ?t)"
          and eff: "effect ?n (CacheHit ?n out # finish_events env opts ?c out ?info) ?st st'"
          and m: "map_of (assets st') ?n =
                    Some (if snd (warnings_to_push env opts ?c out) = None
                          then (out_source out, ?info) else (src0, info0))"
        by (auto simp: api so)
      have "task_inv env opts sched ?c ?e0 ?info orig ?t
              (events_of ?n (log ?st) @ CacheHit ?n out # finish_events env opts ?c out ?info)
              (map_of (assets st') ?n)"
      proof (cases "snd (warnings_to_push env opts ?c out) = None")
        case True
        have "outcome_ok env opts sched ?c (FromCache out) \<and>
              \<not> outcome_rejects env opts ?c (FromCache out) \<and>
              events_of ?n (log ?st) @ CacheHit ?n out # finish_events env opts ?c out ?info =
                ?e0 @ outcome_events env opts sched ?c ?info (FromCache out) \<and>
              map_of (assets st') ?n = Some (outcome_asset ?c orig ?info (FromCache out))"
          by (simp add: ev m True)
        then have "task_inv env opts sched ?c ?e0 ?info orig Done
                (events_of ?n (log ?st) @ CacheHit ?n out # finish_events env opts ?c out ?info)
                (map_of (assets st') ?n)"
          unfolding task_inv.simps by blast
        then show ?thesis by (simp only: if_P [OF True])
      next
        case False
        have "outcome_ok env opts sched ?c (FromCache out) \<and>
              outcome_rejects env opts ?c (FromCache out) \<and>
              events_of ?n (log ?st) @ CacheHit ?n out # finish_events env opts ?c out ?info =
                ?e0 @ outcome_events env opts sched ?c ?info (FromCache out) \<and>
              map_of (assets st') ?n = Some orig"
          using False by (auto simp: ev m so)
        then have "task_inv env opts sched ?c ?e0 ?info orig Rejected
                (events_of ?n (log ?st) @ CacheHit ?n out # finish_events env opts ?c out ?info)
                (map_of (assets st') ?n)"
          unfolding task_inv.simps by blast
        then show ?thesis by (simp only: if_not_P [OF False])
      qed
      from run_inv_update [OF inv d i eff okI [OF this]]
      show ?thesis using True AwaitGet c ag by (simp add: step_def)
    qed
  next
    case (AwaitMinify c)
    with ti have c: "c = ?c" and ev: "events_of ?n (log ?st) = ?e0 @ miss_events opts sched ?c"
      and cur: "map_of (assets ?st) ?n = Some orig" by simp_all
    show ?thesis
    proof (cases "call_minifier env sched (minimizerOptions_of opts ?c)")
      case (Inl e)
      let ?t = "if isl (built_error env ?c e) then Rejected else Done"
      from after_minify_throw [OF Inl] obtain st'
        where am: "after_minify env opts sched ?c ?st = (st', ?t)"
          and eff: "effect ?n (Threw ?n e # error_events env ?c e) ?st st'"
          and as: "assets st' = assets ?st"
        by auto
      have "task_inv env opts sched ?c ?e0 ?info orig ?t
              (events_of ?n (log ?st) @ Threw ?n e # error_events env ?c e)
              (map_of (assets st') ?n)"
      proof (cases "isl (built_error env ?c e)")
        case False
        have "outcome_ok env opts sched ?c (Failed e) \<and>
              \<not> outcome_rejects env opts ?c (Failed e) \<and>
              events_of ?n (log ?st) @ Threw ?n e # error_events env ?c e =
                ?e0 @ outcome_events env opts sched ?c ?info (Failed e) \<and>
              map_of (assets st') ?n = Some (outcome_asset ?c orig ?info (Failed e))"
          using False by (simp add: ev as cur Inl)
        then have "task_inv env opts sched ?c ?e0 ?info orig Done
                (events_of ?n (log ?st) @ Threw ?n e # error_events env ?c e)
                (map_of (assets st') ?n)"
          unfolding task_inv.simps by blast
        then show ?thesis by (simp only: if_not_P [OF False])
      next
        case True
        have "outcome_ok env opts sched ?c (Failed e) \<and>
              outcome_rejects env opts ?c (Failed e) \<and>
              events_of ?n (log ?st) @ Threw ?n e # error_events env ?c e =
                ?e0 @ outcome_events env opts sched ?c ?info (Failed e) \<and>
              map_of (assets st') ?n = Some orig"
          using True by (simp add: ev as cur Inl)
        then have "task_inv env opts sched ?c ?e0 ?info orig Rejected
                (events_of ?n (log ?st) @ Threw ?n e # error_events env ?c e)
                (map_of (assets st') ?n)"
          unfolding task_inv.simps by blast
        then show ?thesis by (simp only: if_P [OF True])
      qed
      from run_inv_update [OF inv d i eff okI [OF this]]
      show ?thesis using True AwaitMinify c am by (simp add: step_def)
    next
      case (Inr res)
      from after_minify_return [OF Inr] obtain st'
        where am: "after_minify env opts sched ?c ?st = (st', AwaitStore ?c (build_output ?c res))"
          and eff: "effect ?n [Returned ?n res] ?st st'"
          and as: "assets st' = assets ?st"
        by auto
      have "task_inv env opts sched ?c ?e0 ?info orig (AwaitStore ?c (build_output ?c res))
              (events_of ?n (log ?st) @ [Returned ?n res]) (map_of (assets st') ?n)"
        by (simp add: ev as cur Inr)
      from run_inv_update [OF inv d i eff okI [OF this]]
      show ?thesis using True AwaitMinify c am by (simp add: step_def)
    qed
  next
    case (AwaitStore c out)
    with ti obtain res where c: "c = ?c"
      and cur: "map_of (assets ?st) ?n = Some (src0, info0)"
      and res: "call_minifier env sched (minimizerOptions_of opts ?c) = Inr res"
      and out: "out = build_output ?c res"
      and ev: "events_of ?n (log ?st) = ?e0 @ miss_events opts sched ?c @ [Returned ?n res]"
      by (auto simp: so)
    have cur': "map_of (assets ?st) (c_name ?c) = Some (src0, info0)" using cur by simp
    let ?t = "if snd (warnings_to_push env opts ?c out) = None then Done else Rejected"
    from after_store_effect [OF cur', of env opts out] obtain st'
      where af: "after_store env opts ?c out ?st = (st', ?t)"
        and eff: "effect ?n (Stored ?n out (c_cacheData ?c) #
                    finish_events env opts ?c out ?info) ?st st'"
        and m: "map_of (assets st') ?n =
                  Some (if snd (warnings_to_push env opts ?c out) = None
                        then (out_source out, ?info) else (src0, info0))"
      by (auto simp: api so)
    have "task_inv env opts sched ?c ?e0 ?info orig ?t
            (events_of ?n (log ?st) @ Stored ?n out (c_cacheData ?c) #
               finish_events env opts ?c out ?info)
            (map_of (assets st') ?n)"
    proof (cases "snd (warnings_to_push env opts ?c out) = None")
      case True
      have "outcome_ok env opts sched ?c (Minified res) \<and>
            \<not> outcome_rejects env opts ?c (Minified res) \<and>
            events_of ?n (log ?st) @ Stored ?n out (c_cacheData ?c) #
                finish_events env opts ?c out ?info =
              ?e0 @ outcome_events env opts sched ?c ?info (Minified res) \<and>
            map_of (assets st') ?n = Some (outcome_asset ?c orig ?info (Minified res))"
        using True by (simp add: ev m res out)
      then have "task_inv env opts sched ?c ?e0 ?info orig Done
              (events_of ?n (log ?st) @ Stored ?n out (c_cacheData ?c) #
                 finish_events env opts ?c out ?info)
              (map_of (assets st') ?n)"
        unfolding task_inv.simps by blast
      then show ?thesis by (simp only: if_P [OF True])
    next
      case False
      have "outcome_ok env opts sched ?c (Minified res) \<and>
            outcome_rejects env opts ?c (Minified res) \<and>
            events_of ?n (log ?st) @ Stored ?n out (c_cacheData ?c) #
                finish_events env opts ?c out ?info =
              ?e0 @ outcome_events env opts sched ?c ?info (Minified res) \<and>
            map_of (assets st') ?n = Some orig"
        using False by (auto simp: ev m res out so)
      then have "task_inv env opts sched ?c ?e0 ?info orig Rejected
              (events_of ?n (log ?st) @ Stored ?n out (c_cacheData ?c) #
                 finish_events env opts ?c out ?info)
              (map_of (assets st') ?n)"
        unfolding task_inv.simps by blast
      then show ?thesis by (simp only: if_not_P [OF False])
    qed
    from run_inv_update [OF inv d i eff okI [OF this]]
    show ?thesis using True AwaitStore c af by (simp add: step_def)
  next
    case Done
    with True inv show ?thesis by (simp add: step_def)
  next
    case Rejected
    with True inv show ?thesis by (simp add: step_def)
  qed
qed

lemma run_inv_schedule:
  assumes "run_inv env opts sched names st0 r" and "selected st0 names"
  shows "run_inv env opts sched names st0 (run_schedule env opts sched names schedule r)"
  using assms(1) unfolding run_schedule_def
  by (induction schedule arbitrary: r) (simp_all add: run_inv_step [OF _ assms(2)])

section \<open>The selection and the runs of \<^verbatim>\<open>optimize\<close>\<close>

lemma filter_names_eq:
  "filter_names env opts st ks = Some names \<Longrightarrow>
   names = filter (\<lambda>n. matchObject env opts n \<and>
                     (\<exists>a. getAsset st n = Some a \<and> \<not> info_minimized (a_info a))) ks"
proof (induction ks arbitrary: names)
  case Nil
  then show ?case by simp
next
  case (Cons k ks)
  then show ?case
    by (auto split: if_splits option.splits)
qed

lemma distinct_object_keys: "distinct (object_keys obj)"
  by (simp add: object_keys_def)

lemma assetNames_selected:
  assumes "assetNames env opts st assets_arg = Some names"
  shows "selected st names" and "\<forall>n \<in> set names. matchObject env opts n"
proof -
  let ?ks = "case assets_arg of None \<Rightarrow> object_keys (assets st) | Some a \<Rightarrow> object_keys a"
  have d: "distinct ?ks" by (cases assets_arg) (simp_all add: distinct_object_keys)
  from assms have "filter_names env opts st ?ks = Some names" by (simp add: assetNames_def)
  from filter_names_eq [OF this]
  have eq: "names = filter (\<lambda>n. matchObject env opts n \<and>
       (\<exists>a. getAsset st n = Some a \<and> \<not> info_minimized (a_info a))) ?ks" .
  have "distinct names" by (subst eq) (rule distinct_filter [OF d])
  moreover have "\<forall>n \<in> set names. \<exists>a. getAsset st n = Some a \<and> \<not> info_minimized (a_info a)"
    by (subst eq) simp
  ultimately show "selected st names" by (simp add: selected_def)
  show "\<forall>n \<in> set names. matchObject env opts n" by (subst eq) simp
qed

lemma optimize_run_inv:
  assumes "assetNames env opts st assets_arg = Some names"
  shows "run_inv env opts (scheduler_of env opts names) names st
           (optimize_run env opts names schedule st)"
  unfolding optimize_run_def
  by (rule run_inv_schedule [OF run_inv_initial]) (rule assetNames_selected [OF assms])+

lemma log_event_task:
  assumes inv: "run_inv env opts sched names st0 r" and e: "e \<in> set (log (run_state r))"
  obtains i where "i < length names" "names ! i = event_name e"
    "e \<in> set (events_of (event_name e) (log (run_state r)))"
proof -
  from inv e have "event_name e \<in> set names" by (simp add: run_inv_def)
  then obtain i where "i < length names" "names ! i = event_name e"
    by (auto simp: in_set_conv_nth)
  moreover have "e \<in> set (events_of (event_name e) (log (run_state r)))"
    using e by (simp add: events_of_def)
  ultimately show ?thesis by (rule that)
qed

section \<open>The invariant of the scheduler\<close>

lemma activeCount_update:
  "i < length ts \<Longrightarrow>
   activeCount (ts[i := t]) + (if is_active (ts ! i) then 1 else 0) =
   activeCount ts + (if is_active t then 1 else 0)"
proof (induction ts arbitrary: i)
  case Nil
  then show ?case by simp
next
  case (Cons x xs)
  show ?case
  proof (cases i)
    case 0
    then show ?thesis by (simp add: activeCount_def)
  next
    case (Suc j)
    with Cons.prems have "j < length xs" by simp
    from Cons.IH [OF this] Suc show ?thesis by (simp add: activeCount_def)
  qed
qed

lemma finish_not_Queued: "snd (finish env opts c out st) \<noteq> Queued"
  by (simp add: finish_def Let_def split: option.splits prod.splits)

lemma task_start_not_Queued: "snd (task_start env opts n st) \<noteq> Queued"
  by (simp add: task_start_def split: option.splits)

lemma after_get_not_Queued: "snd (after_get env opts sched c st) \<noteq> Queued"
  by (simp add: after_get_def finish_not_Queued split: option.splits)

lemma after_minify_not_Queued: "snd (after_minify env opts sched c st) \<noteq> Queued"
  by (simp add: after_minify_def split: sum.splits)

lemma after_store_not_Queued: "snd (after_store env opts c out st) \<noteq> Queued"
  by (simp add: after_store_def finish_not_Queued)

lemma step_tasks:
  "\<exists>t. run_tasks (step env opts sched names i r) = (run_tasks r)[i := t] \<and>
       (i < length (run_tasks r) \<longrightarrow>
          (t = run_tasks r ! i \<or>
           t \<noteq> Queued \<and>
           (run_tasks r ! i = Queued \<and> can_start sched (run_tasks r) i \<or>
            is_active (run_tasks r ! i))))"
proof (cases "i < length (run_tasks r) \<and> i < length names")
  case False
  then have "step env opts sched names i r = r" unfolding step_def by (rule if_not_P)
  then have "run_tasks (step env opts sched names i r) = (run_tasks r)[i := run_tasks r ! i]"
    by simp
  then show ?thesis by blast
next
  case True
  show ?thesis
  proof (cases "run_tasks r ! i")
    case Queued
    show ?thesis
    proof (cases "can_start sched (run_tasks r) i")
      case True
      with \<open>i < length (run_tasks r) \<and> i < length names\<close> Queued
      have "run_tasks (step env opts sched names i r) =
              (run_tasks r)[i := snd (task_start env opts (names ! i) (run_state r))]"
        by (simp add: step_def set_task_def)
      with True Queued task_start_not_Queued show ?thesis by blast
    next
      case False
      with \<open>i < length (run_tasks r) \<and> i < length names\<close> Queued
      have "step env opts sched names i r = r" by (simp add: step_def)
      then have "run_tasks (step env opts sched names i r) = (run_tasks r)[i := run_tasks r ! i]"
        by (simp only: list_update_id)
      then show ?thesis by blast
    qed
  next
    case (AwaitGet c)
    with True have "run_tasks (step env opts sched names i r) =
        (run_tasks r)[i := snd (after_get env opts sched c (run_state r))]"
      by (simp add: step_def set_task_def)
    moreover have "is_active (run_tasks r ! i)" using AwaitGet by simp
    ultimately show ?thesis using after_get_not_Queued by blast
  next
    case (AwaitMinify c)
    with True have "run_tasks (step env opts sched names i r) =
        (run_tasks r)[i := snd (after_minify env opts sched c (run_state r))]"
      by (simp add: step_def set_task_def)
    moreover have "is_active (run_tasks r ! i)" using AwaitMinify by simp
    ultimately show ?thesis using after_minify_not_Queued by blast
  next
    case (AwaitStore c out)
    with True have "run_tasks (step env opts sched names i r) =
        (run_tasks r)[i := snd (after_store env opts c out (run_state r))]"
      by (simp add: step_def set_task_def)
    moreover have "is_active (run_tasks r ! i)" using AwaitStore by simp
    ultimately show ?thesis using after_store_not_Queued by blast
  next
    case Done
    with True have "step env opts sched names i r = r" by (simp add: step_def)
    then have "run_tasks (step env opts sched names i r) = (run_tasks r)[i := run_tasks r ! i]"
      by (simp only: list_update_id)
    then show ?thesis by blast
  next
    case Rejected
    with True have "step env opts sched names i r = r" by (simp add: step_def)
    then have "run_tasks (step env opts sched names i r) = (run_tasks r)[i := run_tasks r ! i]"
      by (simp only: list_update_id)
    then show ?thesis by blast
  qed
qed

lemma sched_inv_step:
  assumes inv: "sched_inv sched r"
  shows "sched_inv sched (step env opts sched names i r)"
proof -
  let ?ts = "run_tasks r"
  from step_tasks [of env opts sched names i r] obtain t
    where ts': "run_tasks (step env opts sched names i r) = ?ts[i := t]"
      and t: "i < length ?ts \<longrightarrow>
          (t = ?ts ! i \<or>
           t \<noteq> Queued \<and> (?ts ! i = Queued \<and> can_start sched ?ts i \<or> is_active (?ts ! i)))"
    by blast
  show ?thesis
  proof (cases "i < length ?ts \<and> t \<noteq> ?ts ! i")
    case False
    then have "?ts[i := t] = ?ts"
      by (cases "i < length ?ts") (simp_all add: list_update_id list_update_beyond)
    with ts' have eq: "run_tasks (step env opts sched names i r) = ?ts" by simp
    show ?thesis unfolding sched_inv_def eq using inv [unfolded sched_inv_def] .
  next
    case True
    with t have i: "i < length ?ts" and nq: "t \<noteq> Queued"
      and pre: "?ts ! i = Queued \<and> can_start sched ?ts i \<or> is_active (?ts ! i)"
      by auto
    have q: "?ts[i := t] ! b = Queued"
      if ab: "a < b" "b < length (?ts[i := t])" "?ts[i := t] ! a = Queued" for a b
    proof -
      from ab i nq have ai: "a \<noteq> i" by (auto simp: nth_list_update split: if_splits)
      with ab have qa: "?ts ! a = Queued" by simp
      with inv ab have qb: "?ts ! b = Queued" by (simp add: sched_inv_def)
      have "b \<noteq> i"
      proof
        assume bi: "b = i"
        with qb pre have "can_start sched ?ts i" by auto
        then have "\<forall>n < length (take i ?ts). take i ?ts ! n \<noteq> Queued"
          by (simp add: can_start_def list_all_length)
        moreover from ab bi i have "a < length (take i ?ts)" by simp
        ultimately have "take i ?ts ! a \<noteq> Queued" by blast
        with ab bi qa show False by simp
      qed
      with qb show ?thesis by simp
    qed
    have a: "activeCount (?ts[i := t]) \<le> k" if k: "concurrency sched = Limit k" for k
    proof -
      from inv k have le: "activeCount ?ts \<le> k" by (simp add: sched_inv_def)
      note eq = activeCount_update [OF i, of t]
      from pre show ?thesis
      proof
        assume "?ts ! i = Queued \<and> can_start sched ?ts i"
        then have "activeCount ?ts < k" "\<not> is_active (?ts ! i)"
          using k by (simp_all add: can_start_def)
        with eq show ?thesis by (simp split: if_splits)
      next
        assume "is_active (?ts ! i)"
        with eq le show ?thesis by (simp split: if_splits)
      qed
    qed
    show ?thesis unfolding sched_inv_def ts'
    proof (intro conjI allI impI)
      fix a b
      assume "a < b \<and> b < length (?ts[i := t]) \<and> ?ts[i := t] ! a = Queued"
      then show "?ts[i := t] ! b = Queued" using q [of a b] by simp
    next
      fix k assume "concurrency sched = Limit k"
      then show "activeCount (?ts[i := t]) \<le> k" by (rule a)
    qed
  qed
qed

lemma sched_inv_schedule:
  assumes "sched_inv sched r"
  shows "sched_inv sched (run_schedule env opts sched names schedule r)"
  using assms unfolding run_schedule_def
  by (induction schedule arbitrary: r) (simp_all add: sched_inv_step)

lemma activeCount_replicate_Queued [simp]: "activeCount (replicate n Queued) = 0"
  by (simp add: activeCount_def)

lemma sched_inv_initial: "sched_inv sched (initial_run names st)"
  by (simp add: sched_inv_def initial_run_def)

section \<open>Every run can be continued until it is settled\<close>

lemma step_other:
  "j \<noteq> i \<Longrightarrow> run_tasks (step env opts sched names i r) ! j = run_tasks r ! j"
  using step_tasks [of env opts sched names i r] by auto

lemma step_length:
  "length (run_tasks (step env opts sched names i r)) = length (run_tasks r)"
  using step_tasks [of env opts sched names i r] by auto

lemma step_progress:
  assumes inv: "run_inv env opts sched names st0 r" and i: "i < length names"
      and cs: "run_tasks r ! i = Queued \<Longrightarrow> can_start sched (run_tasks r) i"
  shows "settled (run_tasks (step env opts sched names i r) ! i) \<or>
         rank (run_tasks (step env opts sched names i r) ! i) < rank (run_tasks r ! i)"
proof -
  let ?n = "names ! i"
  let ?st = "run_state r"
  from inv have len: "length (run_tasks r) = length names"
    and api: "asset_api ?st = asset_api st0" by (simp_all add: run_inv_def)
  with i have il: "i < length (run_tasks r)" by simp
  from inv i obtain a orig where a: "getAsset st0 ?n = Some a"
    and nmin: "\<not> info_minimized (a_info a)"
    and orig: "map_of (assets st0) ?n = Some orig"
    and ti: "task_inv env opts sched (make_ctx env opts ?n a) (start_events env opts ?n a)
               (new_info (asset_api st0) (snd orig) (make_ctx env opts ?n a)) orig
               (run_tasks r ! i) (events_of ?n (log ?st)) (map_of (assets ?st) ?n)"
    unfolding run_inv_def task_ok_def by blast
  let ?c = "make_ctx env opts ?n a"
  obtain src0 info0 where so: "orig = (src0, info0)" by (cases orig)
  have new: "run_tasks (set_task r i p) ! i = snd p" for p
    using il by (simp add: set_task_def)
  show ?thesis
  proof (cases "run_tasks r ! i")
    case Queued
    from ti Queued have cur: "map_of (assets ?st) ?n = Some orig" by simp
    have "getAsset ?st ?n = getAsset st0 ?n"
      by (rule getAsset_cong) (simp_all add: cur orig api)
    with a have "getAsset ?st ?n = Some a" by simp
    from task_start_effect [OF this nmin, of env opts] obtain st'
      where "task_start env opts ?n ?st = (st', AwaitGet ?c)" by blast
    with Queued cs il i show ?thesis by (simp add: step_def new)
  next
    case (AwaitGet c)
    with ti have c: "c = ?c"
      and cur: "map_of (assets ?st) (c_name ?c) = Some (src0, info0)" by (simp_all add: so)
    show ?thesis
    proof (cases "cache_get env (opt_cache opts) (cache ?st) (c_cacheData ?c)")
      case None
      from after_get_miss [OF None, of sched] obtain st'
        where "after_get env opts sched ?c ?st = (st', AwaitMinify ?c)" by auto
      with AwaitGet c il i show ?thesis by (simp add: step_def new)
    next
      case (Some out)
      from after_get_hit [OF Some cur, of sched] obtain st'
        where "after_get env opts sched ?c ?st =
                 (st', if snd (warnings_to_push env opts ?c out) = None then Done else Rejected)"
        by auto
      with AwaitGet c il i show ?thesis by (simp add: step_def new)
    qed
  next
    case (AwaitMinify c)
    with ti have c: "c = ?c" by simp
    show ?thesis
    proof (cases "call_minifier env sched (minimizerOptions_of opts ?c)")
      case (Inl e)
      from after_minify_throw [OF Inl] obtain st'
        where "after_minify env opts sched ?c ?st =
                 (st', if isl (built_error env ?c e) then Rejected else Done)" by auto
      with AwaitMinify c il i show ?thesis by (simp add: step_def new)
    next
      case (Inr res)
      from after_minify_return [OF Inr] obtain st'
        where "after_minify env opts sched ?c ?st = (st', AwaitStore ?c (build_output ?c res))"
        by auto
      with AwaitMinify c il i show ?thesis by (simp add: step_def new)
    qed
  next
    case (AwaitStore c out)
    with ti have c: "c = ?c"
      and cur: "map_of (assets ?st) (c_name ?c) = Some (src0, info0)" by (auto simp: so)
    from after_store_effect [OF cur, of env opts out] obtain st'
      where "after_store env opts ?c out ?st =
               (st', if snd (warnings_to_push env opts ?c out) = None then Done else Rejected)"
      by auto
    with AwaitStore c il i show ?thesis by (simp add: step_def new)
  next
    case Done
    with il i show ?thesis by (simp add: step_def)
  next
    case Rejected
    with il i show ?thesis by (simp add: step_def)
  qed
qed

lemma rank_0_settled: "rank t = 0 \<Longrightarrow> settled t"
  by (cases t) simp_all

lemma step_decrease:
  assumes inv: "run_inv env opts sched names st0 r" and sel: "selected st0 names"
      and i: "i < length names"
      and k: "settled (run_tasks r ! i) \<or> rank (run_tasks r ! i) \<le> Suc k"
      and cs: "run_tasks r ! i = Queued \<Longrightarrow> can_start sched (run_tasks r) i"
  shows "run_inv env opts sched names st0 (step env opts sched names i r) \<and>
         (settled (run_tasks (step env opts sched names i r) ! i) \<or>
          rank (run_tasks (step env opts sched names i r) ! i) \<le> k) \<and>
         run_tasks (step env opts sched names i r) ! i \<noteq> Queued"
proof -
  let ?t = "run_tasks r ! i" and ?t' = "run_tasks (step env opts sched names i r) ! i"
  note p = step_progress [OF inv i cs]
  have "rank ?t \<le> 4" by (cases ?t) simp_all
  with p have nq: "?t' \<noteq> Queued" by (cases ?t') auto
  have "settled ?t' \<or> rank ?t' \<le> k"
  proof (cases "settled ?t")
    case True
    then have "rank ?t = 0" by (cases ?t) simp_all
    with p show ?thesis by auto
  next
    case False
    with k p show ?thesis by auto
  qed
  with nq run_inv_step [OF inv sel] show ?thesis by blast
qed

lemma four_steps:
  assumes inv: "run_inv env opts sched names st0 r" and sel: "selected st0 names"
      and i: "i < length names"
      and cs: "run_tasks r ! i = Queued \<Longrightarrow> can_start sched (run_tasks r) i"
  shows "settled (run_tasks (run_schedule env opts sched names (replicate 4 i) r) ! i)"
proof -
  let ?s = "step env opts sched names i"
  have "rank (run_tasks r ! i) \<le> 4" by (cases "run_tasks r ! i") simp_all
  then have k4: "settled (run_tasks r ! i) \<or> rank (run_tasks r ! i) \<le> Suc 3" by simp
  from step_decrease [OF inv sel i k4 cs]
  have 1: "run_inv env opts sched names st0 (?s r)"
    "settled (run_tasks (?s r) ! i) \<or> rank (run_tasks (?s r) ! i) \<le> Suc 2"
    "run_tasks (?s r) ! i \<noteq> Queued" by (simp_all add: numeral_3_eq_3)
  from step_decrease [OF 1(1) sel i 1(2)] 1(3)
  have 2: "run_inv env opts sched names st0 (?s (?s r))"
    "settled (run_tasks (?s (?s r)) ! i) \<or> rank (run_tasks (?s (?s r)) ! i) \<le> Suc 1"
    "run_tasks (?s (?s r)) ! i \<noteq> Queued" by (simp_all add: numeral_2_eq_2)
  from step_decrease [OF 2(1) sel i 2(2)] 2(3)
  have 3: "run_inv env opts sched names st0 (?s (?s (?s r)))"
    "settled (run_tasks (?s (?s (?s r))) ! i) \<or> rank (run_tasks (?s (?s (?s r))) ! i) \<le> Suc 0"
    "run_tasks (?s (?s (?s r))) ! i \<noteq> Queued" by simp_all
  from step_decrease [OF 3(1) sel i 3(2)] 3(3)
  have 4: "settled (run_tasks (?s (?s (?s (?s r)))) ! i) \<or>
      rank (run_tasks (?s (?s (?s (?s r)))) ! i) \<le> 0"
    by simp
  from 4 rank_0_settled have "settled (run_tasks (?s (?s (?s (?s r)))) ! i)" by auto
  moreover have "run_schedule env opts sched names (replicate 4 i) r = ?s (?s (?s (?s r)))"
    by (simp add: run_schedule_def numeral_eq_Suc)
  ultimately show ?thesis by simp
qed

lemma run_schedule_append:
  "run_schedule env opts sched names (s1 @ s2) r =
   run_schedule env opts sched names s2 (run_schedule env opts sched names s1 r)"
  by (simp add: run_schedule_def)

lemma run_schedule_other:
  "j \<notin> set schedule \<Longrightarrow>
   run_tasks (run_schedule env opts sched names schedule r) ! j = run_tasks r ! j"
  unfolding run_schedule_def
  by (induction schedule arbitrary: r) (auto simp: step_other)

lemma run_schedule_length:
  "length (run_tasks (run_schedule env opts sched names schedule r)) = length (run_tasks r)"
  unfolding run_schedule_def
  by (induction schedule arbitrary: r) (auto simp: step_length)

lemma activeCount_0: "\<forall>t \<in> set ts. \<not> is_active t \<Longrightarrow> activeCount ts = 0"
  by (simp add: activeCount_def)

lemma settled_not_active: "settled t \<Longrightarrow> \<not> is_active t \<and> t \<noteq> Queued"
  by (cases t) simp_all

lemma complete_upto:
  assumes inv: "run_inv env opts sched names st0 r" and sinv: "sched_inv sched r"
      and sel: "selected st0 names" and lp: "limit_pos sched" and m: "m \<le> length names"
  shows "\<forall>j < m. settled (run_tasks (run_schedule env opts sched names (completion m) r) ! j)"
  using m
proof (induction m)
  case 0
  then show ?case by simp
next
  case (Suc m)
  let ?r1 = "run_schedule env opts sched names (completion m) r"
  let ?r2 = "run_schedule env opts sched names (replicate 4 m) ?r1"
  from Suc have IH: "\<forall>j < m. settled (run_tasks ?r1 ! j)" and m: "m < length names"
    by simp_all
  have c: "completion (Suc m) = completion m @ replicate 4 m" by (simp add: completion_def)
  have inv1: "run_inv env opts sched names st0 ?r1" by (rule run_inv_schedule [OF inv sel])
  have sinv1: "sched_inv sched ?r1" by (rule sched_inv_schedule [OF sinv])
  from inv1 have len: "length (run_tasks ?r1) = length names" by (simp add: run_inv_def)
  have cs: "can_start sched (run_tasks ?r1) m" if q: "run_tasks ?r1 ! m = Queued"
  proof -
    have e: "list_all (\<lambda>t. t \<noteq> Queued) (take m (run_tasks ?r1))"
      using IH m len settled_not_active by (simp add: list_all_length)
    have "\<not> is_active t" if "t \<in> set (run_tasks ?r1)" for t
    proof -
      from that obtain j where j: "j < length (run_tasks ?r1)" "run_tasks ?r1 ! j = t"
        by (auto simp: in_set_conv_nth)
      consider "j < m" | "j = m" | "m < j" by linarith
      then show ?thesis
      proof cases
        case 1 with IH j settled_not_active show ?thesis by blast
      next
        case 2 with q j show ?thesis by auto
      next
        case 3
        with sinv1 q j have "run_tasks ?r1 ! j = Queued" unfolding sched_inv_def by blast
        with j show ?thesis by auto
      qed
    qed
    then have "activeCount (run_tasks ?r1) = 0" by (simp add: activeCount_0)
    with lp e show ?thesis by (auto simp: can_start_def limit_pos_def split: concurrency.splits)
  qed
  from four_steps [OF inv1 sel m cs] have d: "settled (run_tasks ?r2 ! m)" by simp
  have o: "settled (run_tasks ?r2 ! j)" if "j < m" for j
  proof -
    from that have "j \<notin> set (replicate 4 m)" by auto
    from run_schedule_other [OF this, of env opts sched names ?r1]
    have "run_tasks ?r2 ! j = run_tasks ?r1 ! j" .
    with IH that show ?thesis by simp
  qed
  show ?case
  proof (intro allI impI)
    fix j assume "j < Suc m"
    then consider "j < m" | "j = m" by linarith
    then show "settled (run_tasks (run_schedule env opts sched names (completion (Suc m)) r) ! j)"
      by cases (simp_all add: c run_schedule_append o d)
  qed
qed

lemma limit_pos_scheduler: "names \<noteq> [] \<Longrightarrow> limit_pos (scheduler_of env opts names)"
  by (auto simp: limit_pos_def scheduler_of_def make_scheduler_def Let_def split: if_splits)

lemma run_schedule_no_names [simp]: "run_schedule env opts sched [] schedule r = r"
  unfolding run_schedule_def by (induction schedule) (simp_all add: step_def)


text \<open>
  Every run can be continued until \<^verbatim>\<open>optimize\<close> is settled: it resolves, or a task has
  rejected it.
\<close>

lemma optimize_settles:
  assumes n: "assetNames env opts st assets_arg = Some names"
  shows "optimize env opts assets_arg (schedule @ completion (length names)) st \<noteq> OptPending"
proof (cases "names = []")
  case True
  with n show ?thesis by (simp add: optimize_def)
next
  case False
  let ?sched = "scheduler_of env opts names"
  let ?r1 = "optimize_run env opts names schedule st"
  let ?r = "optimize_run env opts names (schedule @ completion (length names)) st"
  have r: "?r = run_schedule env opts ?sched names (completion (length names)) ?r1"
    by (simp add: optimize_run_def run_schedule_append)
  have inv1: "run_inv env opts ?sched names st ?r1" by (rule optimize_run_inv [OF n])
  have sinv1: "sched_inv ?sched ?r1"
    unfolding optimize_run_def by (rule sched_inv_schedule [OF sched_inv_initial])
  have sel: "selected st names" by (rule assetNames_selected [OF n])
  from complete_upto [OF inv1 sinv1 sel limit_pos_scheduler [OF False] order_refl]
  have d: "\<forall>j < length names. settled (run_tasks ?r ! j)" by (simp add: r)
  have len: "length (run_tasks ?r) = length names"
    using optimize_run_inv [OF n] by (simp add: run_inv_def)
  show ?thesis
  proof (cases "Rejected \<in> set (run_tasks ?r)")
    case True
    with n False show ?thesis by (simp add: optimize_def Let_def)
  next
    case nr: False
    have "run_tasks ?r ! j = Done" if "j < length names" for j
    proof -
      from d that have s: "settled (run_tasks ?r ! j)" by simp
      from nr that len have "run_tasks ?r ! j \<noteq> Rejected" by (metis nth_mem)
      with s show ?thesis by (cases "run_tasks ?r ! j") simp_all
    qed
    with len have "list_all (\<lambda>t. t = Done) (run_tasks ?r)" by (simp add: list_all_length)
    with nr n False show ?thesis by (simp add: optimize_def Let_def)
  qed
qed






section \<open>Consequences of the invariants\<close>


lemma info_minimized_merge: "info_minimized (AList.merge i (set_minimized j))"
  by (simp add: info_minimized_def set_minimized_def merge_conv' update_conv')


lemma pushed_warnings_finish [simp]:
  "pushed_warnings (finish_events env opts c out inf0) = fst (warnings_to_push env opts c out)"
  by (simp add: finish_events_def)

lemma pushed_warnings_error_events [simp]: "pushed_warnings (error_events env c e) = []"
  by (simp add: error_events_def split: sum.splits)

lemma not_selected:
  assumes names: "assetNames env opts st assets_arg = Some names"
      and n: "\<not> matchObject env opts n \<or>
              (\<exists>a. getAsset st n = Some a \<and> info_minimized (a_info a))"
  shows "n \<notin> set names"
proof
  assume "n \<in> set names"
  with assetNames_selected [OF names] have "matchObject env opts n"
    "\<exists>a. getAsset st n = Some a \<and> \<not> info_minimized (a_info a)"
    by (auto simp: selected_def)
  with n show False by auto
qed

lemma invoke_in_log:
  assumes inv: "run_inv env opts sched names st0 r"
      and e: "Invoke n ex mo \<in> set (log (run_state r))"
  shows "ex = executor_of sched \<and>
         (\<exists>a. getAsset st0 n = Some a \<and> mo = minimizerOptions_of opts (make_ctx env opts n a))"
proof -
  from log_event_task [OF inv e] obtain i where i: "i < length names" "names ! i = n"
    and m: "Invoke n ex mo \<in> set (events_of n (log (run_state r)))" by auto
  from inv i obtain a orig where a: "getAsset st0 n = Some a"
    and ti: "task_inv env opts sched (make_ctx env opts n a) (start_events env opts n a)
               (new_info (asset_api st0) (snd orig) (make_ctx env opts n a)) orig
               (run_tasks r ! i) (events_of n (log (run_state r)))
               (map_of (assets (run_state r)) n)"
    unfolding run_inv_def task_ok_def by blast
  have "ex = executor_of sched \<and> mo = minimizerOptions_of opts (make_ctx env opts n a)"
  proof (cases "run_tasks r ! i")
    case Done
    with ti obtain oc where oc: "events_of n (log (run_state r)) =
        start_events env opts n a @ outcome_events env opts sched (make_ctx env opts n a)
          (new_info (asset_api st0) (snd orig) (make_ctx env opts n a)) oc"
      by auto
    from m show ?thesis unfolding oc
      by (cases oc) (auto simp: start_events_def miss_events_def finish_events_def
          error_events_def split: if_splits sum.splits)
  next
    case Rejected
    with ti obtain oc where oc: "events_of n (log (run_state r)) =
        start_events env opts n a @ outcome_events env opts sched (make_ctx env opts n a)
          (new_info (asset_api st0) (snd orig) (make_ctx env opts n a)) oc"
      by auto
    from m show ?thesis unfolding oc
      by (cases oc) (auto simp: start_events_def miss_events_def finish_events_def
          error_events_def split: if_splits sum.splits)
  qed (use ti m in \<open>auto simp: start_events_def miss_events_def split: if_splits\<close>)
  with a show ?thesis by blast
qed

lemma answer_in_log:
  assumes inv: "run_inv env opts sched names st0 r"
  shows "Returned n res \<in> set (log (run_state r)) \<Longrightarrow>
           \<exists>a. getAsset st0 n = Some a \<and>
               call_minifier env sched (minimizerOptions_of opts (make_ctx env opts n a)) = Inr res"
    and "Threw n e \<in> set (log (run_state r)) \<Longrightarrow>
           \<exists>a. getAsset st0 n = Some a \<and>
               call_minifier env sched (minimizerOptions_of opts (make_ctx env opts n a)) = Inl e"
proof -
  have shape: "\<exists>a. getAsset st0 n = Some a \<and>
      (set (events_of n (log (run_state r))) \<subseteq>
         set (start_events env opts n a @ miss_events opts sched (make_ctx env opts n a)) \<or>
       (\<exists>r'. call_minifier env sched (minimizerOptions_of opts (make_ctx env opts n a)) = Inr r' \<and>
          events_of n (log (run_state r)) =
            start_events env opts n a @ miss_events opts sched (make_ctx env opts n a) @
            [Returned n r']) \<or>
       (\<exists>oc inf0. outcome_ok env opts sched (make_ctx env opts n a) oc \<and>
          events_of n (log (run_state r)) =
            start_events env opts n a @
            outcome_events env opts sched (make_ctx env opts n a) inf0 oc))"
    if ev: "ev \<in> set (log (run_state r))" "event_name ev = n" for ev
  proof -
    from log_event_task [OF inv ev(1)] ev(2) obtain i where i: "i < length names" "names ! i = n"
      by auto
    from inv i obtain a orig where a: "getAsset st0 n = Some a"
      and ti: "task_inv env opts sched (make_ctx env opts n a) (start_events env opts n a)
                 (new_info (asset_api st0) (snd orig) (make_ctx env opts n a)) orig
                 (run_tasks r ! i) (events_of n (log (run_state r)))
                 (map_of (assets (run_state r)) n)"
      unfolding run_inv_def task_ok_def by blast
    have "set (events_of n (log (run_state r))) \<subseteq>
         set (start_events env opts n a @ miss_events opts sched (make_ctx env opts n a)) \<or>
       (\<exists>r'. call_minifier env sched (minimizerOptions_of opts (make_ctx env opts n a)) = Inr r' \<and>
          events_of n (log (run_state r)) =
            start_events env opts n a @ miss_events opts sched (make_ctx env opts n a) @
            [Returned n r']) \<or>
       (\<exists>oc inf0. outcome_ok env opts sched (make_ctx env opts n a) oc \<and>
          events_of n (log (run_state r)) =
            start_events env opts n a @
            outcome_events env opts sched (make_ctx env opts n a) inf0 oc)"
    proof (cases "run_tasks r ! i")
      case Queued
      with ti show ?thesis by simp
    next
      case (AwaitGet c)
      with ti show ?thesis by simp
    next
      case (AwaitMinify c)
      with ti show ?thesis by simp
    next
      case (AwaitStore c out)
      with ti show ?thesis by auto
    next
      case Done
      with ti show ?thesis by auto
    next
      case Rejected
      with ti show ?thesis by auto
    qed
    with a show ?thesis by blast
  qed
  {
    assume h: "Returned n res \<in> set (log (run_state r))"
    then have m: "Returned n res \<in> set (events_of n (log (run_state r)))"
      by (simp add: events_of_def)
    from shape [OF h] obtain a where a: "getAsset st0 n = Some a"
      and s: "set (events_of n (log (run_state r))) \<subseteq>
         set (start_events env opts n a @ miss_events opts sched (make_ctx env opts n a)) \<or>
       (\<exists>r'. call_minifier env sched (minimizerOptions_of opts (make_ctx env opts n a)) = Inr r' \<and>
          events_of n (log (run_state r)) =
            start_events env opts n a @ miss_events opts sched (make_ctx env opts n a) @
            [Returned n r']) \<or>
       (\<exists>oc inf0. outcome_ok env opts sched (make_ctx env opts n a) oc \<and>
          events_of n (log (run_state r)) =
            start_events env opts n a @
            outcome_events env opts sched (make_ctx env opts n a) inf0 oc)"
      by auto
    from s have "call_minifier env sched (minimizerOptions_of opts (make_ctx env opts n a)) = Inr res"
    proof (elim disjE exE conjE)
      assume "set (events_of n (log (run_state r))) \<subseteq>
         set (start_events env opts n a @ miss_events opts sched (make_ctx env opts n a))"
      with m show ?thesis by (auto simp: start_events_def miss_events_def split: if_splits)
    next
      fix r'
      assume "call_minifier env sched (minimizerOptions_of opts (make_ctx env opts n a)) = Inr r'"
        "events_of n (log (run_state r)) =
            start_events env opts n a @ miss_events opts sched (make_ctx env opts n a) @
            [Returned n r']"
      with m show ?thesis by (auto simp: start_events_def miss_events_def split: if_splits)
    next
      fix oc inf0
      assume ok: "outcome_ok env opts sched (make_ctx env opts n a) oc"
        and e: "events_of n (log (run_state r)) =
            start_events env opts n a @
            outcome_events env opts sched (make_ctx env opts n a) inf0 oc"
      from m have "oc = Minified res"
        unfolding e
        by (cases oc) (auto simp: start_events_def miss_events_def finish_events_def
            error_events_def split: if_splits sum.splits)
      with ok show ?thesis by simp
    qed
    with a show "\<exists>a. getAsset st0 n = Some a \<and>
        call_minifier env sched (minimizerOptions_of opts (make_ctx env opts n a)) = Inr res"
      by blast
  }
  {
    assume h: "Threw n e \<in> set (log (run_state r))"
    then have m: "Threw n e \<in> set (events_of n (log (run_state r)))"
      by (simp add: events_of_def)
    from shape [OF h] obtain a where a: "getAsset st0 n = Some a"
      and s: "set (events_of n (log (run_state r))) \<subseteq>
         set (start_events env opts n a @ miss_events opts sched (make_ctx env opts n a)) \<or>
       (\<exists>r'. call_minifier env sched (minimizerOptions_of opts (make_ctx env opts n a)) = Inr r' \<and>
          events_of n (log (run_state r)) =
            start_events env opts n a @ miss_events opts sched (make_ctx env opts n a) @
            [Returned n r']) \<or>
       (\<exists>oc inf0. outcome_ok env opts sched (make_ctx env opts n a) oc \<and>
          events_of n (log (run_state r)) =
            start_events env opts n a @
            outcome_events env opts sched (make_ctx env opts n a) inf0 oc)"
      by auto
    from s have "call_minifier env sched (minimizerOptions_of opts (make_ctx env opts n a)) = Inl e"
    proof (elim disjE exE conjE)
      assume "set (events_of n (log (run_state r))) \<subseteq>
         set (start_events env opts n a @ miss_events opts sched (make_ctx env opts n a))"
      with m show ?thesis by (auto simp: start_events_def miss_events_def split: if_splits)
    next
      fix r'
      assume "call_minifier env sched (minimizerOptions_of opts (make_ctx env opts n a)) = Inr r'"
        "events_of n (log (run_state r)) =
            start_events env opts n a @ miss_events opts sched (make_ctx env opts n a) @
            [Returned n r']"
      with m show ?thesis by (auto simp: start_events_def miss_events_def split: if_splits)
    next
      fix oc inf0
      assume ok: "outcome_ok env opts sched (make_ctx env opts n a) oc"
        and ev: "events_of n (log (run_state r)) =
            start_events env opts n a @
            outcome_events env opts sched (make_ctx env opts n a) inf0 oc"
      from m have "oc = Failed e"
        unfolding ev
        by (cases oc) (auto simp: start_events_def miss_events_def finish_events_def
            error_events_def split: if_splits sum.splits)
      with ok show ?thesis by simp
    qed
    with a show "\<exists>a. getAsset st0 n = Some a \<and>
        call_minifier env sched (minimizerOptions_of opts (make_ctx env opts n a)) = Inl e"
      by blast
  }
qed

lemma buildError_prefix: "take (length file) (buildError e file sm rs) = file"
  by (simp add: buildError_def Let_def split: option.splits prod.splits)

















section \<open>The examples, evaluated\<close>

lemma ex_zero_valid: "isSourceMap ex_valid_map"
  by code_simp

lemma ex_zero_throws:
  "built_warning ex_env4 ex_opts_sm ex_zero_ctx ex_zero_warning = Inl ex_line_error"
  by code_simp

lemma ex_zero_hit:
  "assetNames ex_env4 ex_opts_sm ex_zero_hit_state None = Some [''a.css'']"
  "cache_get ex_env4 (opt_cache ex_opts_sm) (cache ex_zero_hit_state) (c_cacheData ex_zero_ctx) =
     Some ex_zero_output"
  "out_warnings ex_zero_output = Some [ex_zero_warning]"
  "warning_position ex_zero_warning = Some (0, Some 5)"
  "log (run_state (optimize_run ex_env4 ex_opts_sm [''a.css''] ex_two ex_zero_hit_state)) =
     [CacheHit ''a.css'' ex_zero_output]"
  "run_tasks (optimize_run ex_env4 ex_opts_sm [''a.css''] ex_two ex_zero_hit_state) =
     [Rejected]"
  "map_of (assets (run_state (optimize_run ex_env4 ex_opts_sm [''a.css''] ex_two
     ex_zero_hit_state))) ''a.css'' = Some (HostSource 4, [])"
  "optimize ex_env4 ex_opts_sm None ex_two ex_zero_hit_state = OptRejected"
  by code_simp+

lemma ex_zero_names: "assetNames ex_env4 ex_opts_sm ex_zero_state None = Some [''a.css'']"
  by code_simp

lemma ex_zero_fresh:
  "log ex_zero_final =
     [CacheMiss ''a.css'', Invoke ''a.css'' InWorker ex_zero_mo,
      Returned ''a.css'' ex_zero_result,
      Stored ''a.css'' (build_output ex_zero_ctx ex_zero_result) (c_cacheData ex_zero_ctx),
      PushedWarning ''a.css'' (Message ''Css Minimizer Plugin: unknown tail original.css:5:2'')]"
  "r_warnings ex_zero_result = Some [ex_warning, ex_zero_warning, ex_warning]"
  "warnings ex_zero_final = [Message ''Css Minimizer Plugin: unknown tail original.css:5:2'']"
  "run_tasks (optimize_run ex_env4 ex_opts_sm [''a.css''] ex_four ex_zero_state) = [Rejected]"
  "map_of (assets ex_zero_final) ''a.css'' = Some (HostSource 4, [])"
  "optimize ex_env4 ex_opts_sm None ex_four ex_zero_state = OptRejected"
  by code_simp+

lemma ex_zero_again:
  "log (run_state (optimize_run ex_env4 ex_opts_sm [''a.css''] ex_two ex_zero_final)) =
     [CacheHit ''a.css'' (build_output ex_zero_ctx ex_zero_result),
      PushedWarning ''a.css'' (Message ''Css Minimizer Plugin: unknown tail original.css:5:2'')]"
  "run_tasks (optimize_run ex_env4 ex_opts_sm [''a.css''] ex_two ex_zero_final) = [Rejected]"
  "optimize ex_env4 ex_opts_sm None ex_two ex_zero_final = OptRejected"
  by code_simp+

lemma ex_older_throws:
  "built_warning ex_env4 ex_opts_sm ex_older_ctx ex_warning = Inl ex_version_error"
  by code_simp

lemma ex_older_hit:
  "assetNames ex_env4 ex_opts_sm ex_older_hit_state None = Some [''older.css'']"
  "c_inputSourceMap ex_older_ctx = ex_old_map"
  "log (run_state (optimize_run ex_env4 ex_opts_sm [''older.css''] ex_two ex_older_hit_state)) =
     [CacheHit ''older.css'' ex_older_output]"
  "run_tasks (optimize_run ex_env4 ex_opts_sm [''older.css''] ex_two ex_older_hit_state) =
     [Rejected]"
  "map_of (assets (run_state (optimize_run ex_env4 ex_opts_sm [''older.css''] ex_two
     ex_older_hit_state))) ''older.css'' = Some (HostSource 6, [])"
  "optimize ex_env4 ex_opts_sm None ex_two ex_older_hit_state = OptRejected"
  by code_simp+

lemma ex_older_fresh:
  "assetNames ex_env4 ex_opts_sm ex_older_state None = Some [''older.css'']"
  "events_of ''older.css'' (log (run_state (optimize_run ex_env4 ex_opts_sm [''older.css'']
     ex_four ex_older_state))) =
     [CacheMiss ''older.css'',
      Invoke ''older.css'' InWorker (minimizerOptions_of ex_opts_sm ex_older_ctx),
      Returned ''older.css'' ex_older_result,
      Stored ''older.css'' (build_output ex_older_ctx ex_older_result)
        (c_cacheData ex_older_ctx)]"
  "r_warnings ex_older_result = Some [ex_warning]"
  "warnings (run_state (optimize_run ex_env4 ex_opts_sm [''older.css''] ex_four
     ex_older_state)) = []"
  "optimize ex_env4 ex_opts_sm None ex_four ex_older_state = OptRejected"
  by code_simp+

lemma ex_old_names:
  "assetNames ex_env4 ex_opts_sm ex_old_state None = Some [''a.css'', ''old.css'']"
  by code_simp

lemma ex_old_valid: "isSourceMap ex_old_map"
  by code_simp

lemma ex_old_run:
  "c_inputSourceMap ex_old_ctx = ex_old_map"
  "call_minifier ex_env4 (scheduler_of ex_env4 ex_opts_sm [''a.css'', ''old.css''])
     (minimizerOptions_of ex_opts_sm ex_old_ctx) = Inl ex_error"
  "built_error ex_env4 ex_old_ctx ex_error = Inl ex_version_error"
  "events_of ''old.css'' (log ex_old_final) =
     [CacheMiss ''old.css'',
      Invoke ''old.css'' InWorker (minimizerOptions_of ex_opts_sm ex_old_ctx),
      Threw ''old.css'' ex_error]"
  "errors ex_old_final = []"
  "map_of (assets ex_old_final) ''old.css'' = Some (HostSource 5, [])"
  "run_tasks (optimize_run ex_env4 ex_opts_sm [''a.css'', ''old.css''] ex_fail_schedule
     ex_old_state) = [Done, Rejected]"
  "optimize ex_env4 ex_opts_sm None ex_fail_schedule ex_old_state = OptRejected"
  by code_simp+


lemma ex_mixed_names: "assetNames ex_env4 ex_opts ex_mixed_state None = Some [''a.css'']"
  by code_simp

lemma ex_mixed_b: "\<not> matchObject ex_env4 ex_opts ''b.txt''"
  by code_simp

lemma ex_mixed_d:
  "getAsset ex_mixed_state ''d.css'' =
     Some \<lparr>a_source = HostSource 0, a_info = [(''minimized'', JBool True)]\<rparr>"
  "info_minimized [(''minimized'', JBool True)]"
  by code_simp+

lemma ex_mixed_assets:
  "map_of (assets ex_mixed_state) ''b.txt'' = Some (HostSource 1, [])"
  "map_of (assets ex_mixed_state) ''d.css'' = Some (HostSource 0, [(''minimized'', JBool True)])"
  by code_simp+

lemma ex_one_names: "assetNames ex_env4 ex_opts ex_one_state None = Some [''a.css'']"
  by code_simp

lemma ex_one_cores: "getAvailableNumberOfCores (os_cpus ex_env4) (opt_parallel ex_opts) = 3"
  by code_simp

lemma ex_one_log:
  "log (run_state (optimize_run ex_env4 ex_opts [''a.css''] [0, 0] ex_one_state)) =
     [CacheMiss ''a.css'', Invoke ''a.css'' InWorker (ex_mo ''a.css'' ''.a{color: red;  }'')]"
  by code_simp

lemma ex_one_worker:
  "worker (scheduler_of ex_env4 ex_opts [''a.css'']) = Some 1"
  by code_simp

lemma ex_one_returned:
  "Returned ''a.css'' ex_a_result \<in>
     set (log (run_state (optimize_run ex_env4 ex_opts [''a.css''] [0, 0, 0] ex_one_state)))"
  "getAsset ex_one_state ''a.css'' = Some \<lparr>a_source = HostSource 0, a_info = []\<rparr>"
  "minimizerOptions_of ex_opts
     (make_ctx ex_env4 ex_opts ''a.css'' \<lparr>a_source = HostSource 0, a_info = []\<rparr>) =
   ex_mo ''a.css'' ''.a{color: red;  }''"
  by code_simp+

lemma ex_fail_threw1:
  "Threw ''bad.css'' ex_error \<in>
     set (log (run_state (optimize_run ex_env1 ex_opts [''a.css'', ''bad.css'']
       ex_threw_schedule ex_fail_state)))"
  "getAsset ex_fail_state ''bad.css'' = Some \<lparr>a_source = HostSource 2, a_info = []\<rparr>"
  "minimizerOptions_of ex_opts
     (make_ctx ex_env1 ex_opts ''bad.css'' \<lparr>a_source = HostSource 2, a_info = []\<rparr>) =
   ex_mo ''bad.css'' ''.b{''"
  by code_simp+

lemma ex_fail_names1:
  "assetNames ex_env1 ex_opts ex_fail_state None = Some [''a.css'', ''bad.css'']"
  by code_simp

lemma ex_fail_cores1:
  "getAvailableNumberOfCores (os_cpus ex_env1) (opt_parallel ex_opts) = 0"
  by code_simp

lemma ex_fail_inflight:
  "map is_active (run_tasks (optimize_run ex_env1 ex_opts [''a.css'', ''bad.css'']
     ex_interleaved ex_fail_state)) = [True, True]"
  "log (run_state (optimize_run ex_env1 ex_opts [''a.css'', ''bad.css'']
     ex_interleaved ex_fail_state)) =
     [CacheMiss ''a.css'', Invoke ''a.css'' InProcess (ex_mo ''a.css'' ''.a{color: red;  }''),
      CacheMiss ''bad.css'', Invoke ''bad.css'' InProcess (ex_mo ''bad.css'' ''.b{'')]"
  "activeCount (run_tasks (optimize_run ex_env1 ex_opts [''a.css'', ''bad.css'']
     ex_interleaved ex_fail_state)) = 2"
  by code_simp+







section \<open>Properties of \<^verbatim>\<open>optimize\<close>\<close>

text \<open>
  C1 fails where a call of \<^verbatim>\<open>source-map\<close> throws in the loop over the stored warnings.
  \<^verbatim>\<open>a.css\<close> has a source map that passes \<^verbatim>\<open>isSourceMap\<close> and that the library accepts, and
  the cache holds an output for it with a warning that names the line 0, for which
  \<^verbatim>\<open>originalPositionFor\<close> throws. The minifier is not called, but the task is rejected
  before \<^verbatim>\<open>updateAsset\<close>: the asset is not replaced by the stored output, and \<^verbatim>\<open>optimize\<close>
  is rejected. The same happens with \<^verbatim>\<open>older.css\<close>, whose source map has the version 2:
  it passes \<^verbatim>\<open>isSourceMap\<close>, and \<^verbatim>\<open>new SourceMapConsumer\<close> throws for it at the first stored
  warning.
\<close>

theorem cache_hit_rejected_by_stored_warning:
  "assetNames ex_env4 ex_opts_sm ex_zero_hit_state None = Some [''a.css''] \<and>
   isSourceMap ex_valid_map \<and>
   cache_get ex_env4 (opt_cache ex_opts_sm) (cache ex_zero_hit_state) (c_cacheData ex_zero_ctx) =
     Some ex_zero_output \<and>
   out_warnings ex_zero_output = Some [ex_zero_warning] \<and>
   warning_position ex_zero_warning = Some (0, Some 5) \<and>
   built_warning ex_env4 ex_opts_sm ex_zero_ctx ex_zero_warning = Inl ex_line_error \<and>
   log (run_state (optimize_run ex_env4 ex_opts_sm [''a.css''] ex_two ex_zero_hit_state)) =
     [CacheHit ''a.css'' ex_zero_output] \<and>
   run_tasks (optimize_run ex_env4 ex_opts_sm [''a.css''] ex_two ex_zero_hit_state) =
     [Rejected] \<and>
   map_of (assets (run_state (optimize_run ex_env4 ex_opts_sm [''a.css''] ex_two
     ex_zero_hit_state))) ''a.css'' = Some (HostSource 4, []) \<and>
   optimize ex_env4 ex_opts_sm None ex_two ex_zero_hit_state = OptRejected \<and>
   assetNames ex_env4 ex_opts_sm ex_older_hit_state None = Some [''older.css''] \<and>
   isSourceMap ex_old_map \<and>
   c_inputSourceMap ex_older_ctx = ex_old_map \<and>
   built_warning ex_env4 ex_opts_sm ex_older_ctx ex_warning = Inl ex_version_error \<and>
   log (run_state (optimize_run ex_env4 ex_opts_sm [''older.css''] ex_two ex_older_hit_state)) =
     [CacheHit ''older.css'' ex_older_output] \<and>
   run_tasks (optimize_run ex_env4 ex_opts_sm [''older.css''] ex_two ex_older_hit_state) =
     [Rejected] \<and>
   map_of (assets (run_state (optimize_run ex_env4 ex_opts_sm [''older.css''] ex_two
     ex_older_hit_state))) ''older.css'' = Some (HostSource 6, []) \<and>
   optimize ex_env4 ex_opts_sm None ex_two ex_older_hit_state = OptRejected"
  by (intro conjI)
    (rule ex_zero_hit ex_zero_valid ex_zero_throws ex_older_hit ex_old_valid ex_older_throws)+

text \<open>
  C2 fails where a call of \<^verbatim>\<open>source-map\<close> throws inside the handler of the failure.
  \<^verbatim>\<open>old.css\<close> has a source map of version 2, which passes \<^verbatim>\<open>isSourceMap\<close>, and its
  minifier call throws. In the handler, \<^verbatim>\<open>new SourceMapConsumer\<close> throws for that map
  before \<^verbatim>\<open>buildError\<close> is called: no error is pushed for \<^verbatim>\<open>old.css\<close>, its task is
  rejected, and \<^verbatim>\<open>optimize\<close> is rejected although the task of \<^verbatim>\<open>a.css\<close> has ended.
\<close>

theorem minifier_failure_rejected_in_handler:
  "assetNames ex_env4 ex_opts_sm ex_old_state None = Some [''a.css'', ''old.css''] \<and>
   isSourceMap ex_old_map \<and>
   c_inputSourceMap ex_old_ctx = ex_old_map \<and>
   call_minifier ex_env4 (scheduler_of ex_env4 ex_opts_sm [''a.css'', ''old.css''])
     (minimizerOptions_of ex_opts_sm ex_old_ctx) = Inl ex_error \<and>
   built_error ex_env4 ex_old_ctx ex_error = Inl ex_version_error \<and>
   events_of ''old.css'' (log ex_old_final) =
     [CacheMiss ''old.css'',
      Invoke ''old.css'' InWorker (minimizerOptions_of ex_opts_sm ex_old_ctx),
      Threw ''old.css'' ex_error] \<and>
   errors ex_old_final = [] \<and>
   map_of (assets ex_old_final) ''old.css'' = Some (HostSource 5, []) \<and>
   run_tasks (optimize_run ex_env4 ex_opts_sm [''a.css'', ''old.css''] ex_fail_schedule
     ex_old_state) = [Done, Rejected] \<and>
   optimize ex_env4 ex_opts_sm None ex_fail_schedule ex_old_state = OptRejected"
  by (intro conjI) (rule ex_old_names ex_old_valid ex_old_run)+

text \<open>
  C3: at every moment of every run of \<^verbatim>\<open>optimize\<close>, an asset whose name does not match,
  or whose info is flagged \<^verbatim>\<open>minimized\<close> when the run starts, is in the store what it was
  before the run, and the log has no event of it: no warning and no error was pushed for
  it, the warnings and errors of the compilation being the previous ones followed by the
  ones the log records.
\<close>

theorem unselected_asset_untouched:
  assumes names: "assetNames env opts st assets_arg = Some names"
      and n: "\<not> matchObject env opts n \<or>
              (\<exists>a. getAsset st n = Some a \<and> info_minimized (a_info a))"
  shows "map_of (assets (run_state (optimize_run env opts names schedule st))) n =
           map_of (assets st) n \<and>
         events_of n (log (run_state (optimize_run env opts names schedule st))) = [] \<and>
         warnings (run_state (optimize_run env opts names schedule st)) =
           warnings st @ pushed_warnings (log (run_state (optimize_run env opts names schedule st))) \<and>
         errors (run_state (optimize_run env opts names schedule st)) =
           errors st @ pushed_errors (log (run_state (optimize_run env opts names schedule st)))"
proof -
  let ?st' = "run_state (optimize_run env opts names schedule st)"
  note inv = optimize_run_inv [OF names, of schedule]
  note nn = not_selected [OF names n]
  from inv nn have 1: "map_of (assets ?st') n = map_of (assets st) n"
    by (simp add: run_inv_def)
  from inv have "\<forall>e \<in> set (log ?st'). event_name e \<in> set names" by (simp add: run_inv_def)
  with nn have "\<forall>e \<in> set (log ?st'). event_name e \<noteq> n" by auto
  then have 2: "events_of n (log ?st') = []" by (simp add: events_of_def)
  from inv have 3: "warnings ?st' = warnings st @ pushed_warnings (log ?st')"
    and 4: "errors ?st' = errors st @ pushed_errors (log ?st')"
    by (simp_all add: run_inv_def)
  from 1 2 3 4 show ?thesis by (intro conjI)
qed

text \<open>C3 on a store with \<^verbatim>\<open>a.css\<close>, \<^verbatim>\<open>b.txt\<close> and an asset that is already minimized.\<close>

theorem unselected_asset_untouched_witness:
  "map_of (assets (run_state (optimize_run ex_env4 ex_opts [''a.css''] [0, 0, 0, 0]
     ex_mixed_state))) ''b.txt'' = Some (HostSource 1, []) \<and>
   events_of ''b.txt'' (log (run_state (optimize_run ex_env4 ex_opts [''a.css'']
     [0, 0, 0, 0] ex_mixed_state))) = [] \<and>
   map_of (assets (run_state (optimize_run ex_env4 ex_opts [''a.css''] [0, 0, 0, 0]
     ex_mixed_state))) ''d.css'' = Some (HostSource 0, [(''minimized'', JBool True)]) \<and>
   events_of ''d.css'' (log (run_state (optimize_run ex_env4 ex_opts [''a.css'']
     [0, 0, 0, 0] ex_mixed_state))) = []"
proof -
  have b: "\<not> matchObject ex_env4 ex_opts ''b.txt'' \<or>
      (\<exists>a. getAsset ex_mixed_state ''b.txt'' = Some a \<and> info_minimized (a_info a))"
    using ex_mixed_b by simp
  have d: "\<not> matchObject ex_env4 ex_opts ''d.css'' \<or>
      (\<exists>a. getAsset ex_mixed_state ''d.css'' = Some a \<and> info_minimized (a_info a))"
    using ex_mixed_d by simp
  from unselected_asset_untouched [OF ex_mixed_names b, of "[0, 0, 0, 0]"] unselected_asset_untouched [OF ex_mixed_names d, of "[0, 0, 0, 0]"]
  show ?thesis by (simp add: ex_mixed_assets)
qed

text \<open>
  C5, as stated, fails twice. With one selected asset and three available cores a worker
  pool (of one worker) is created and the minifier call goes to it. With no available core
  and two selected assets both minifier calls are in flight at once, in-process: the limit
  given to \<^verbatim>\<open>pLimit\<close> is \<^verbatim>\<open>Infinity\<close>, not the computed count.
\<close>

theorem small_batch_uses_worker_pool_counterexample:
  "assetNames ex_env4 ex_opts ex_one_state None = Some [''a.css''] \<and>
   getAvailableNumberOfCores (os_cpus ex_env4) (opt_parallel ex_opts) = 3 \<and>
   int (length [''a.css'']) < 3 \<and>
   worker (scheduler_of ex_env4 ex_opts [''a.css'']) = Some 1 \<and>
   log (run_state (optimize_run ex_env4 ex_opts [''a.css''] [0, 0] ex_one_state)) =
     [CacheMiss ''a.css'', Invoke ''a.css'' InWorker (ex_mo ''a.css'' ''.a{color: red;  }'')] \<and>
   assetNames ex_env1 ex_opts ex_fail_state None = Some [''a.css'', ''bad.css''] \<and>
   getAvailableNumberOfCores (os_cpus ex_env1) (opt_parallel ex_opts) = 0 \<and>
   log (run_state (optimize_run ex_env1 ex_opts [''a.css'', ''bad.css'']
     ex_interleaved ex_fail_state)) =
     [CacheMiss ''a.css'', Invoke ''a.css'' InProcess (ex_mo ''a.css'' ''.a{color: red;  }''),
      CacheMiss ''bad.css'', Invoke ''bad.css'' InProcess (ex_mo ''bad.css'' ''.b{'')] \<and>
   activeCount (run_tasks (optimize_run ex_env1 ex_opts [''a.css'', ''bad.css'']
     ex_interleaved ex_fail_state)) = 2"
  by (simp add: ex_one_names ex_one_cores ex_one_worker ex_one_log ex_fail_names1
      ex_fail_cores1 ex_fail_inflight)

text \<open>
  C5 (amended): when the computed number of cores is not positive, no worker pool is
  created and the limit of concurrency is \<^verbatim>\<open>Infinity\<close>; when it is positive, a pool of
  \<open>min (number of selected assets) (number of cores)\<close> workers is created, also when
  fewer assets are selected than cores are available, and that number is the limit. At
  every moment of every run, every minifier call is in-process exactly when there is no
  pool, and the number of tasks that are started and not settled is within the limit.
  What a minifier call returned or threw is the answer of \<^verbatim>\<open>worker.transform\<close> to the
  serialized options when there is a pool, and of \<^verbatim>\<open>minifyFn\<close> otherwise.
\<close>

theorem worker_pool_follows_core_count:
  assumes names: "assetNames env opts st assets_arg = Some names"
  shows "(getAvailableNumberOfCores (os_cpus env) (opt_parallel opts) \<le> 0 \<longrightarrow>
            worker (scheduler_of env opts names) = None \<and>
            concurrency (scheduler_of env opts names) = Infinity) \<and>
         (0 < getAvailableNumberOfCores (os_cpus env) (opt_parallel opts) \<longrightarrow>
            worker (scheduler_of env opts names) =
              Some (min (length names)
                     (nat (getAvailableNumberOfCores (os_cpus env) (opt_parallel opts)))) \<and>
            concurrency (scheduler_of env opts names) =
              Limit (min (length names)
                      (nat (getAvailableNumberOfCores (os_cpus env) (opt_parallel opts))))) \<and>
         (\<forall>n ex mo.
            Invoke n ex mo \<in> set (log (run_state (optimize_run env opts names schedule st))) \<longrightarrow>
            ex = (if 0 < getAvailableNumberOfCores (os_cpus env) (opt_parallel opts)
                  then InWorker else InProcess)) \<and>
         (\<forall>k. concurrency (scheduler_of env opts names) = Limit k \<longrightarrow>
            activeCount (run_tasks (optimize_run env opts names schedule st)) \<le> k) \<and>
         (\<forall>n res.
            Returned n res \<in> set (log (run_state (optimize_run env opts names schedule st))) \<longrightarrow>
            (\<exists>a. getAsset st n = Some a \<and>
               (if 0 < getAvailableNumberOfCores (os_cpus env) (opt_parallel opts)
                then worker_transform env
                       (serialize env (minimizerOptions_of opts (make_ctx env opts n a)))
                else minifyFn env (minimizerOptions_of opts (make_ctx env opts n a))) =
               Inr res)) \<and>
         (\<forall>n e.
            Threw n e \<in> set (log (run_state (optimize_run env opts names schedule st))) \<longrightarrow>
            (\<exists>a. getAsset st n = Some a \<and>
               (if 0 < getAvailableNumberOfCores (os_cpus env) (opt_parallel opts)
                then worker_transform env
                       (serialize env (minimizerOptions_of opts (make_ctx env opts n a)))
                else minifyFn env (minimizerOptions_of opts (make_ctx env opts n a))) =
               Inl e))"
proof -
  let ?c = "getAvailableNumberOfCores (os_cpus env) (opt_parallel opts)"
  let ?sched = "scheduler_of env opts names"
  let ?r = "optimize_run env opts names schedule st"
  have 1: "?c \<le> 0 \<longrightarrow> worker ?sched = None \<and> concurrency ?sched = Infinity"
    by (simp add: scheduler_of_def make_scheduler_def)
  have 2: "0 < ?c \<longrightarrow>
      worker ?sched = Some (min (length names) (nat ?c)) \<and>
      concurrency ?sched = Limit (min (length names) (nat ?c))"
    by (auto simp: scheduler_of_def make_scheduler_def Let_def min_def)
  have ex: "executor_of ?sched = (if 0 < ?c then InWorker else InProcess)"
    by (simp add: executor_of_def scheduler_of_def make_scheduler_def Let_def)
  note inv = optimize_run_inv [OF names, of schedule]
  have 3: "\<forall>n ex mo. Invoke n ex mo \<in> set (log (run_state ?r)) \<longrightarrow>
      ex = (if 0 < ?c then InWorker else InProcess)"
    using invoke_in_log [OF inv] ex by metis
  have "sched_inv ?sched ?r"
    unfolding optimize_run_def by (rule sched_inv_schedule [OF sched_inv_initial])
  then have 4: "\<forall>k. concurrency ?sched = Limit k \<longrightarrow> activeCount (run_tasks ?r) \<le> k"
    by (simp add: sched_inv_def)
  have cm: "call_minifier env ?sched mo =
      (if 0 < ?c then worker_transform env (serialize env mo) else minifyFn env mo)" for mo
    by (simp add: call_minifier_def scheduler_of_def make_scheduler_def Let_def)
  have 5: "\<forall>n res. Returned n res \<in> set (log (run_state ?r)) \<longrightarrow>
      (\<exists>a. getAsset st n = Some a \<and>
         (if 0 < ?c
          then worker_transform env (serialize env (minimizerOptions_of opts (make_ctx env opts n a)))
          else minifyFn env (minimizerOptions_of opts (make_ctx env opts n a))) = Inr res)"
  proof (intro allI impI)
    fix n res assume "Returned n res \<in> set (log (run_state ?r))"
    from answer_in_log(1) [OF inv this]
    show "\<exists>a. getAsset st n = Some a \<and>
         (if 0 < ?c
          then worker_transform env (serialize env (minimizerOptions_of opts (make_ctx env opts n a)))
          else minifyFn env (minimizerOptions_of opts (make_ctx env opts n a))) = Inr res"
      unfolding cm .
  qed
  have 6: "\<forall>n e. Threw n e \<in> set (log (run_state ?r)) \<longrightarrow>
      (\<exists>a. getAsset st n = Some a \<and>
         (if 0 < ?c
          then worker_transform env (serialize env (minimizerOptions_of opts (make_ctx env opts n a)))
          else minifyFn env (minimizerOptions_of opts (make_ctx env opts n a))) = Inl e)"
  proof (intro allI impI)
    fix n e assume "Threw n e \<in> set (log (run_state ?r))"
    from answer_in_log(2) [OF inv this]
    show "\<exists>a. getAsset st n = Some a \<and>
         (if 0 < ?c
          then worker_transform env (serialize env (minimizerOptions_of opts (make_ctx env opts n a)))
          else minifyFn env (minimizerOptions_of opts (make_ctx env opts n a))) = Inl e"
      unfolding cm .
  qed
  from 1 2 3 4 5 6 show ?thesis by (intro conjI)
qed

text \<open>C5 (amended) on the two runs of the counterexample.\<close>

theorem worker_pool_follows_core_count_witness:
  "worker (scheduler_of ex_env4 ex_opts [''a.css'']) = Some 1 \<and>
   concurrency (scheduler_of ex_env4 ex_opts [''a.css'']) = Limit 1 \<and>
   Invoke ''a.css'' InWorker (ex_mo ''a.css'' ''.a{color: red;  }'') \<in>
     set (log (run_state (optimize_run ex_env4 ex_opts [''a.css''] [0, 0] ex_one_state))) \<and>
   activeCount (run_tasks (optimize_run ex_env4 ex_opts [''a.css''] [0, 0]
     ex_one_state)) \<le> 1 \<and>
   worker (scheduler_of ex_env1 ex_opts [''a.css'', ''bad.css'']) = None \<and>
   concurrency (scheduler_of ex_env1 ex_opts [''a.css'', ''bad.css'']) = Infinity \<and>
   Returned ''a.css'' ex_a_result \<in>
     set (log (run_state (optimize_run ex_env4 ex_opts [''a.css''] [0, 0, 0] ex_one_state))) \<and>
   worker_transform ex_env4 (serialize ex_env4 (ex_mo ''a.css'' ''.a{color: red;  }'')) =
     Inr ex_a_result \<and>
   Threw ''bad.css'' ex_error \<in>
     set (log (run_state (optimize_run ex_env1 ex_opts [''a.css'', ''bad.css'']
       ex_threw_schedule ex_fail_state))) \<and>
   minifyFn ex_env1 (ex_mo ''bad.css'' ''.b{'') = Inl ex_error"
proof -
  note t1 = worker_pool_follows_core_count [OF ex_one_names, of "[0, 0]"]
  note t2 = worker_pool_follows_core_count [OF ex_fail_names1, of ex_interleaved]
  note t3 = worker_pool_follows_core_count [OF ex_one_names, of "[0, 0, 0]"]
  note t4 = worker_pool_follows_core_count [OF ex_fail_names1, of ex_threw_schedule]
  from t1 have 1: "worker (scheduler_of ex_env4 ex_opts [''a.css'']) = Some 1"
    "concurrency (scheduler_of ex_env4 ex_opts [''a.css'']) = Limit 1"
    "activeCount (run_tasks (optimize_run ex_env4 ex_opts [''a.css''] [0, 0]
       ex_one_state)) \<le> 1"
    by (simp_all add: ex_one_cores)
  from t1 have 2: "Invoke ''a.css'' InWorker (ex_mo ''a.css'' ''.a{color: red;  }'') \<in>
      set (log (run_state (optimize_run ex_env4 ex_opts [''a.css''] [0, 0] ex_one_state)))"
    by (simp add: ex_one_log)
  from t2 have 3: "worker (scheduler_of ex_env1 ex_opts [''a.css'', ''bad.css'']) = None"
    "concurrency (scheduler_of ex_env1 ex_opts [''a.css'', ''bad.css'']) = Infinity"
    by (simp_all add: ex_fail_cores1)
  from t3 ex_one_returned(1) obtain a
    where "getAsset ex_one_state ''a.css'' = Some a"
      and "(if 0 < getAvailableNumberOfCores (os_cpus ex_env4) (opt_parallel ex_opts)
            then worker_transform ex_env4
                   (serialize ex_env4 (minimizerOptions_of ex_opts
                      (make_ctx ex_env4 ex_opts ''a.css'' a)))
            else minifyFn ex_env4 (minimizerOptions_of ex_opts
                   (make_ctx ex_env4 ex_opts ''a.css'' a))) = Inr ex_a_result"
    by blast
  then have 4: "worker_transform ex_env4 (serialize ex_env4 (ex_mo ''a.css'' ''.a{color: red;  }'')) =
      Inr ex_a_result"
    using ex_one_returned(3) by (auto simp: ex_one_cores ex_one_returned(2))
  from t4 ex_fail_threw1(1) obtain b
    where "getAsset ex_fail_state ''bad.css'' = Some b"
      and "(if 0 < getAvailableNumberOfCores (os_cpus ex_env1) (opt_parallel ex_opts)
            then worker_transform ex_env1
                   (serialize ex_env1 (minimizerOptions_of ex_opts
                      (make_ctx ex_env1 ex_opts ''bad.css'' b)))
            else minifyFn ex_env1 (minimizerOptions_of ex_opts
                   (make_ctx ex_env1 ex_opts ''bad.css'' b))) = Inl ex_error"
    by blast
  then have 5: "minifyFn ex_env1 (ex_mo ''bad.css'' ''.b{'') = Inl ex_error"
    using ex_fail_threw1(3) by (auto simp: ex_fail_cores1 ex_fail_threw1(2))
  from 1 2 3 ex_one_returned(1) 4 ex_fail_threw1(1) 5 show ?thesis by (intro conjI)
qed



text \<open>
  C10 fails where a call of \<^verbatim>\<open>source-map\<close> throws in the loop over the warnings. \<^verbatim>\<open>a.css\<close>
  has a source map that passes \<^verbatim>\<open>isSourceMap\<close> and that the library accepts; the minifier
  returns three warnings for it, the second of which names the line 0, for which
  \<^verbatim>\<open>originalPositionFor\<close> throws. The first warning is pushed; the second and the third are
  not; the task is rejected after \<^verbatim>\<open>cache.store\<close> and before \<^verbatim>\<open>updateAsset\<close>, and
  \<^verbatim>\<open>optimize\<close> is rejected. The next run finds the output in the cache and ends in the same
  way: the warnings of the result that is reused are not all on the warnings of the
  compilation, in the run that called the minifier and in the run that hit the cache.
  For \<^verbatim>\<open>older.css\<close>, whose source map has the version 2, the minifier returns one warning
  and none is pushed: \<^verbatim>\<open>new SourceMapConsumer\<close> throws for the map.
\<close>

theorem warnings_lost_when_report_throws:
  "assetNames ex_env4 ex_opts_sm ex_zero_state None = Some [''a.css''] \<and>
   isSourceMap ex_valid_map \<and>
   built_warning ex_env4 ex_opts_sm ex_zero_ctx ex_zero_warning = Inl ex_line_error \<and>
   log ex_zero_final =
     [CacheMiss ''a.css'', Invoke ''a.css'' InWorker ex_zero_mo,
      Returned ''a.css'' ex_zero_result,
      Stored ''a.css'' (build_output ex_zero_ctx ex_zero_result) (c_cacheData ex_zero_ctx),
      PushedWarning ''a.css'' (Message ''Css Minimizer Plugin: unknown tail original.css:5:2'')] \<and>
   r_warnings ex_zero_result = Some [ex_warning, ex_zero_warning, ex_warning] \<and>
   warnings ex_zero_final = [Message ''Css Minimizer Plugin: unknown tail original.css:5:2''] \<and>
   run_tasks (optimize_run ex_env4 ex_opts_sm [''a.css''] ex_four ex_zero_state) = [Rejected] \<and>
   map_of (assets ex_zero_final) ''a.css'' = Some (HostSource 4, []) \<and>
   optimize ex_env4 ex_opts_sm None ex_four ex_zero_state = OptRejected \<and>
   log (run_state (optimize_run ex_env4 ex_opts_sm [''a.css''] ex_two ex_zero_final)) =
     [CacheHit ''a.css'' (build_output ex_zero_ctx ex_zero_result),
      PushedWarning ''a.css'' (Message ''Css Minimizer Plugin: unknown tail original.css:5:2'')] \<and>
   run_tasks (optimize_run ex_env4 ex_opts_sm [''a.css''] ex_two ex_zero_final) = [Rejected] \<and>
   optimize ex_env4 ex_opts_sm None ex_two ex_zero_final = OptRejected \<and>
   assetNames ex_env4 ex_opts_sm ex_older_state None = Some [''older.css''] \<and>
   events_of ''older.css'' (log (run_state (optimize_run ex_env4 ex_opts_sm [''older.css'']
     ex_four ex_older_state))) =
     [CacheMiss ''older.css'',
      Invoke ''older.css'' InWorker (minimizerOptions_of ex_opts_sm ex_older_ctx),
      Returned ''older.css'' ex_older_result,
      Stored ''older.css'' (build_output ex_older_ctx ex_older_result)
        (c_cacheData ex_older_ctx)] \<and>
   r_warnings ex_older_result = Some [ex_warning] \<and>
   warnings (run_state (optimize_run ex_env4 ex_opts_sm [''older.css''] ex_four
     ex_older_state)) = [] \<and>
   optimize ex_env4 ex_opts_sm None ex_four ex_older_state = OptRejected"
  by (intro conjI)
    (rule ex_zero_names ex_zero_valid ex_zero_throws ex_zero_fresh ex_zero_again ex_older_fresh)+

end

